theory Spec2Isabelle
  imports Complex_Main "HOL-Library.Multiset"
begin

section \<open>Floating-point numbers\<close>

text \<open>
  Python floats are IEEE 754 binary64 numbers, and every arithmetic operation on them
  returns the exact result rounded to the nearest representable number, ties to the even
  significand. \<open>rne\<close> rounds a real to the nearest integer, ties to even; \<open>fl\<close> rounds a
  real to 53 significant bits. The exponent is unbounded: overflow, subnormal numbers,
  signed zeros, infinities and NaN are outside this model (the one place where the code
  can produce an infinity, the division in \<^verbatim>\<open>calculate_scale_factor\<close>, is modelled
  separately below).
\<close>

definition rne :: "real \<Rightarrow> int" where
  "rne x = (let n = \<lfloor>x\<rfloor>; r = x - of_int n
            in if r < 1 / 2 then n else if 1 / 2 < r then n + 1
               else if even n then n else n + 1)"

definition fl :: "real \<Rightarrow> real" where
  "fl x = (if x = 0 then 0
           else (let e = \<lfloor>log 2 \<bar>x\<bar>\<rfloor> - 52
                 in of_int (rne (x / 2 powi e)) * 2 powi e))"

text \<open>
  A double is a real number tagged as one; the operations round their results. \<open>dbl\<close>
  reads a decimal literal of the source (or a Python int entering float arithmetic) as
  the nearest double. Every result of an operation is a representable number; the
  theorems below quantify over all values of the type, so they hold in particular for
  the representable ones, and the concrete inputs of the examples are built with \<open>dbl\<close>.
  Comparisons are exact.
\<close>

datatype double = Double (val: real)

instantiation double :: "{zero, one, plus, minus, uminus, times, inverse, linorder}"
begin

definition "(0::double) = Double 0"

definition "(1::double) = Double 1"

definition "a + b = Double (fl (val a + val b))"

definition "a - b = Double (fl (val a - val b))"

definition "- a = Double (- val a)"

definition "a * b = Double (fl (val a * val b))"

definition "a div b = Double (fl (val a / val b))"

definition "inverse a = Double (fl (1 / val a))"

definition "a \<le> b \<longleftrightarrow> val a \<le> val b"

definition "a < b \<longleftrightarrow> val a < val b"

instance
  by standard (auto simp: less_eq_double_def less_double_def double.expand)

end

definition dbl :: "real \<Rightarrow> double" where
  "dbl x = Double (fl x)"

section \<open>Data model of Page3.py\<close>

text \<open>
  The layout code works on Python dictionaries with fixed keys. An item is
  \<^verbatim>\<open>{"type": .., "position": {"x": .., "y": ..}, "rotation": 0, "dimensions": {..}}\<close>.
  Each dictionary becomes a record. The number type is a parameter of the records, so that
  \<open>check_collision\<close> can be studied for any carrier with \<open>+\<close> and \<open>\<le>\<close>; the placement
  engine instantiates it with \<open>double\<close>, and the catalog holds the decimal values as they
  are written in the source.
\<close>

record 'a position =
  pos_x :: 'a
  pos_y :: 'a

record 'a dims =
  width :: 'a
  depth :: 'a
  height :: 'a

record 'a item =
  ftype :: string
  position :: "'a position"
  rotation :: int
  dimensions :: "'a dims"

record room =
  room_width :: double
  room_length :: double
  room_height :: double

section \<open>Furniture catalog\<close>

text \<open>The dictionary literal of \<^verbatim>\<open>get_furniture_dimensions\<close>, in source order.\<close>

definition mk_dims :: "real \<Rightarrow> real \<Rightarrow> real \<Rightarrow> real dims" where
  "mk_dims w d h = \<lparr>width = w, depth = d, height = h\<rparr>"

definition dimensions_table :: "(string \<times> real dims) list" where
  "dimensions_table =
    [(''Bed'', mk_dims (667 / 100) 5 (5 / 2)),
     (''Sofa'', mk_dims 6 3 3),
     (''TV Stand'', mk_dims 5 (3 / 2) 2),
     (''Coffee Table'', mk_dims 4 2 (3 / 2)),
     (''Nightstand'', mk_dims 2 2 2),
     (''Dresser'', mk_dims 4 2 4),
     (''Wardrobe'', mk_dims 4 2 7),
     (''Armchair'', mk_dims 3 3 3),
     (''Toilet'', mk_dims (5 / 2) 2 (5 / 2)),
     (''Sink'', mk_dims 2 (3 / 2) (5 / 2)),
     (''Shower'', mk_dims 3 3 7),
     (''Bathtub'', mk_dims 5 (5 / 2) 2),
     (''Door'', mk_dims 3 (1 / 10) 7),
     (''Window'', mk_dims 4 (1 / 10) 4)]"

text \<open>\<^verbatim>\<open>dimensions.get(furniture_type, {"width": 2, "depth": 2, "height": 2})\<close>\<close>

definition get_furniture_dimensions :: "string \<Rightarrow> real dims" where
  "get_furniture_dimensions furniture_type =
     (case map_of dimensions_table furniture_type of
        Some d \<Rightarrow> d
      | None \<Rightarrow> mk_dims 2 2 2)"

text \<open>
  The values of the dictionary as the doubles that take part in float arithmetic.
\<close>

definition dims_as_double :: "real dims \<Rightarrow> double dims" where
  "dims_as_double d =
     \<lparr>width = dbl (width d), depth = dbl (depth d), height = dbl (height d)\<rparr>"

section \<open>Collision test\<close>

text \<open>
  \<^verbatim>\<open>return not (x1 + w1 <= x2 or x2 + w2 <= x1 or y1 + d1 <= y2 or y2 + d2 <= y1)\<close>
\<close>

definition check_collision :: "('a::{plus,ord}) item \<Rightarrow> 'a item \<Rightarrow> bool" where
  "check_collision item1 item2 =
     (let x1 = pos_x (position item1); y1 = pos_y (position item1);
          w1 = width (dimensions item1); d1 = depth (dimensions item1);
          x2 = pos_x (position item2); y2 = pos_y (position item2);
          w2 = width (dimensions item2); d2 = depth (dimensions item2)
      in \<not> (x1 + w1 \<le> x2 \<or> x2 + w2 \<le> x1 \<or> y1 + d1 \<le> y2 \<or> y2 + d2 \<le> y1))"

section \<open>Placement engine\<close>

text \<open>
  Exceptions of the Python code are values of \<open>error\<close>: \<open>IndexError\<close> for a prediction array
  that has no row \<open>i\<close> or fewer than two columns, \<open>TypeError\<close> for indexing \<^verbatim>\<open>None\<close>,
  and \<open>InferenceError\<close> for whatever \<^verbatim>\<open>model.predict\<close> raises. \<open>NonFinite\<close> is no exception
  of the code: it marks the one place where the values leave the doubles of this model.
\<close>

datatype error = InferenceError | IndexError | TypeError | NonFinite

definition max_attempts :: nat where
  "max_attempts = 50"

text \<open>
  \<^verbatim>\<open>np.random.uniform(low, high)\<close> computes \<open>low + (high - low) * u\<close> in doubles from a
  draw \<open>u\<close> of the generator in \<open>[0, 1)\<close>. The generator is a parameter of the model:
  \<open>rng k\<close> is its \<open>k\<close>-th draw, and the state counts the draws consumed so far.
\<close>

definition uniform :: "double \<Rightarrow> double \<Rightarrow> double \<Rightarrow> double" where
  "uniform low high u = low + (high - low) * u"

record gen_state =
  layouts :: "double item list"
  draws :: nat
  warnings :: "string list"

text \<open>\<^verbatim>\<open>predictions[i][j]\<close> on the array returned by the model.\<close>

definition prediction_at :: "double list list \<Rightarrow> nat \<Rightarrow> nat \<Rightarrow> error + double" where
  "prediction_at predictions i j =
     (if i < length predictions
      then (if j < length (predictions ! i) then Inr (predictions ! i ! j) else Inl IndexError)
      else Inl IndexError)"

text \<open>
  The candidate position of one attempt (the \<^verbatim>\<open>if attempts == 0 and predictions is not None\<close>
  statement). The result carries the number of draws consumed after the attempt.
\<close>

definition random_candidate ::
  "(nat \<Rightarrow> double) \<Rightarrow> room \<Rightarrow> double dims \<Rightarrow> nat \<Rightarrow> double \<times> double \<times> nat" where
  "random_candidate rng rm furniture_dims k =
     (uniform 0 (room_width rm - width furniture_dims) (rng k),
      uniform 0 (room_length rm - depth furniture_dims) (rng (k + 1)),
      k + 2)"

definition candidate ::
  "double list list option \<Rightarrow> (nat \<Rightarrow> double) \<Rightarrow> room \<Rightarrow> nat \<Rightarrow> double dims \<Rightarrow> nat \<Rightarrow> nat
     \<Rightarrow> error + (double \<times> double \<times> nat)" where
  "candidate predictions rng rm i furniture_dims attempts k =
     (case predictions of
        None \<Rightarrow> Inr (random_candidate rng rm furniture_dims k)
      | Some p \<Rightarrow>
          if attempts = 0 then
            (case prediction_at p i 0 of
               Inl e \<Rightarrow> Inl e
             | Inr p0 \<Rightarrow>
                 (case prediction_at p i 1 of
                    Inl e \<Rightarrow> Inl e
                  | Inr p1 \<Rightarrow>
                      Inr (max 0 (min (p0 * room_width rm) (room_width rm - width furniture_dims)),
                           max 0 (min (p1 * room_length rm) (room_length rm - depth furniture_dims)),
                           k)))
          else Inr (random_candidate rng rm furniture_dims k))"

text \<open>
  The number of draws consumed before attempt \<open>n\<close> of an item whose loop began after \<open>k0\<close>
  draws: every attempt takes two draws, except attempt 0 when it uses the prediction.
\<close>

definition draws_before :: "double list list option \<Rightarrow> nat \<Rightarrow> nat \<Rightarrow> nat" where
  "draws_before predictions k0 n =
     (case predictions of
        None \<Rightarrow> k0 + 2 * n
      | Some p \<Rightarrow> if n = 0 then k0 else k0 + 2 * (n - 1))"

text \<open>The \<^verbatim>\<open>for existing_item in layouts\<close> loop with its \<^verbatim>\<open>break\<close>.\<close>

fun has_collision :: "double item \<Rightarrow> double item list \<Rightarrow> bool" where
  "has_collision new_item [] = False"
| "has_collision new_item (existing_item # rest) =
     (if check_collision new_item existing_item then True else has_collision new_item rest)"

definition mk_item :: "string \<Rightarrow> double \<Rightarrow> double \<Rightarrow> double dims \<Rightarrow> double item" where
  "mk_item furniture px py furniture_dims =
     \<lparr>ftype = furniture, position = \<lparr>pos_x = px, pos_y = py\<rparr>, rotation = 0,
      dimensions = furniture_dims\<rparr>"

text \<open>
  The \<^verbatim>\<open>while attempts < max_attempts and not placed\<close> loop for one item. It returns the
  final values of \<^verbatim>\<open>placed\<close> and \<^verbatim>\<open>attempts\<close> with the state.
\<close>

function place_item ::
  "double list list option \<Rightarrow> (nat \<Rightarrow> double) \<Rightarrow> room \<Rightarrow> nat \<Rightarrow> string \<Rightarrow> double dims
     \<Rightarrow> nat \<Rightarrow> gen_state \<Rightarrow> error + (bool \<times> nat \<times> gen_state)" where
  "place_item predictions rng rm i furniture furniture_dims attempts st =
     (if attempts < max_attempts then
        (case candidate predictions rng rm i furniture_dims attempts (draws st) of
           Inl e \<Rightarrow> Inl e
         | Inr (px, py, k) \<Rightarrow>
             if \<not> has_collision (mk_item furniture px py furniture_dims) (layouts st)
             then Inr (True, attempts,
                       st\<lparr>layouts := layouts st @ [mk_item furniture px py furniture_dims],
                          draws := k\<rparr>)
             else place_item predictions rng rm i furniture furniture_dims (attempts + 1)
                    (st\<lparr>draws := k\<rparr>))
      else Inr (False, attempts, st))"
  by pat_completeness auto
termination
  by (relation "measure (\<lambda>(predictions, rng, rm, i, furniture, furniture_dims, attempts, st).
                    max_attempts - attempts)") auto

declare place_item.simps [simp del]

text \<open>One iteration of \<^verbatim>\<open>for i, furniture in enumerate(selected_furniture)\<close>; the printed
  warning is recorded in the state.\<close>

definition place_furniture ::
  "double list list option \<Rightarrow> (nat \<Rightarrow> double) \<Rightarrow> room \<Rightarrow> nat \<Rightarrow> string \<Rightarrow> gen_state
     \<Rightarrow> error + gen_state" where
  "place_furniture predictions rng rm i furniture st =
     (case place_item predictions rng rm i furniture
             (dims_as_double (get_furniture_dimensions furniture)) 0 st of
        Inl e \<Rightarrow> Inl e
      | Inr (placed, attempts, st') \<Rightarrow>
          Inr (if \<not> placed then st'\<lparr>warnings := warnings st' @ [furniture]\<rparr> else st'))"

fun place_all ::
  "double list list option \<Rightarrow> (nat \<Rightarrow> double) \<Rightarrow> room \<Rightarrow> nat \<Rightarrow> string list \<Rightarrow> gen_state
     \<Rightarrow> error + gen_state" where
  "place_all predictions rng rm i [] st = Inr st"
| "place_all predictions rng rm i (furniture # rest) st =
     (case place_furniture predictions rng rm i furniture st of
        Inl e \<Rightarrow> Inl e
      | Inr st' \<Rightarrow> place_all predictions rng rm (Suc i) rest st')"

text \<open>
  The global \<^verbatim>\<open>model\<close> is \<^verbatim>\<open>None\<close> or an object whose \<^verbatim>\<open>predict\<close> maps the feature rows to
  prediction rows or raises. \<^verbatim>\<open>except Exception as e: print(..); raise\<close> passes every
  exception on to the caller.
\<close>

type_synonym predictor = "double list list \<Rightarrow> error + double list list"

definition features :: "room \<Rightarrow> string list \<Rightarrow> double list list" where
  "features rm selected_furniture =
     map (\<lambda>_. [room_width rm / dbl 20, room_length rm / dbl 25, room_height rm / dbl 10,
               0, 0, 0, 0])
       selected_furniture"

definition predict ::
  "predictor option \<Rightarrow> double list list \<Rightarrow> error + double list list option" where
  "predict model X =
     (case model of
        None \<Rightarrow> Inr None
      | Some m \<Rightarrow> (case m X of Inl e \<Rightarrow> Inl e | Inr p \<Rightarrow> Inr (Some p)))"

definition init_state :: gen_state where
  "init_state = \<lparr>layouts = [], draws = 0, warnings = []\<rparr>"

definition generate_layouts ::
  "predictor option \<Rightarrow> (nat \<Rightarrow> double) \<Rightarrow> room \<Rightarrow> string list
     \<Rightarrow> error + (double item list \<times> string list)" where
  "generate_layouts model rng room_dimensions selected_furniture =
     (case predict model (features room_dimensions selected_furniture) of
        Inl e \<Rightarrow> Inl e
      | Inr predictions \<Rightarrow>
          (case place_all predictions rng room_dimensions 0 selected_furniture init_state of
             Inl e \<Rightarrow> Inl e
           | Inr st \<Rightarrow> Inr (layouts st, warnings st)))"

section \<open>Meshes and the scale-and-position step\<close>

text \<open>
  Modelled from the spec: the mesh type and its operations belong to the mesh library,
  which is not among the sources. Following sections 3 and 4.4 of the specification, a
  mesh is a list of vertex positions and a list of triangular faces; its extents are
  max - min per axis (no extents for a mesh without vertices); the two transformations
  are a uniform scale about the origin and a translation by a vector. The coordinates
  are doubles and the transformations round each coordinate.
\<close>

type_synonym vec3 = "double \<times> double \<times> double"

record mesh =
  vertices :: "vec3 list"
  faces :: "(nat \<times> nat \<times> nat) list"

definition xs_of :: "mesh \<Rightarrow> double list" where
  "xs_of m = map fst (vertices m)"

definition ys_of :: "mesh \<Rightarrow> double list" where
  "ys_of m = map (\<lambda>v. fst (snd v)) (vertices m)"

definition zs_of :: "mesh \<Rightarrow> double list" where
  "zs_of m = map (\<lambda>v. snd (snd v)) (vertices m)"

definition bounds_min :: "mesh \<Rightarrow> vec3" where
  "bounds_min m = (Min (set (xs_of m)), Min (set (ys_of m)), Min (set (zs_of m)))"

definition bounds_max :: "mesh \<Rightarrow> vec3" where
  "bounds_max m = (Max (set (xs_of m)), Max (set (ys_of m)), Max (set (zs_of m)))"

definition extents :: "mesh \<Rightarrow> vec3 option" where
  "extents m =
     (if vertices m = [] then None
      else Some (Max (set (xs_of m)) - Min (set (xs_of m)),
                 Max (set (ys_of m)) - Min (set (ys_of m)),
                 Max (set (zs_of m)) - Min (set (zs_of m))))"

definition scale_mesh :: "double \<Rightarrow> mesh \<Rightarrow> mesh" where
  "scale_mesh s m = m\<lparr>vertices := map (\<lambda>(x, y, z). (s * x, s * y, s * z)) (vertices m)\<rparr>"

definition translate_mesh :: "vec3 \<Rightarrow> mesh \<Rightarrow> mesh" where
  "translate_mesh t m =
     m\<lparr>vertices := map (\<lambda>(x, y, z). (x + fst t, y + fst (snd t), z + snd (snd t)))
                      (vertices m)\<rparr>"

text \<open>
  The three ratios of \<^verbatim>\<open>calculate_scale_factor\<close> are numpy divisions: dividing by a zero
  extent does not raise, it gives an infinity with the sign of the numerator, or NaN for
  0 / 0. \<open>xdouble\<close> adds these values to the doubles, \<open>np_divide\<close> is the division and
  \<open>xless\<close> the comparison \<^verbatim>\<open><\<close>, which is false whenever a NaN takes part.
\<close>

datatype xdouble = Fin double | PosInf | NegInf | NaN

definition np_divide :: "double \<Rightarrow> double \<Rightarrow> xdouble" where
  "np_divide a b =
     (if b = 0 then (if 0 < a then PosInf else if a < 0 then NegInf else NaN)
      else Fin (a / b))"

fun xless :: "xdouble \<Rightarrow> xdouble \<Rightarrow> bool" where
  "xless NaN _ = False"
| "xless _ NaN = False"
| "xless (Fin a) (Fin b) = (a < b)"
| "xless (Fin a) PosInf = True"
| "xless (Fin a) NegInf = False"
| "xless PosInf _ = False"
| "xless NegInf NegInf = False"
| "xless NegInf _ = True"

text \<open>
  Python's \<^verbatim>\<open>min(a, b, c)\<close> keeps the first argument and replaces it by a later one only
  when the later one is smaller.
\<close>

definition py_min3 :: "xdouble \<Rightarrow> xdouble \<Rightarrow> xdouble \<Rightarrow> xdouble" where
  "py_min3 a b c =
     (let m = a;
          m = (if xless b m then b else m);
          m = (if xless c m then c else m)
      in m)"

text \<open>
  \<^verbatim>\<open>calculate_scale_factor\<close>. Indexing the extents of a mesh without vertices raises
  \<open>TypeError\<close>.
\<close>

definition calculate_scale_factor :: "mesh \<Rightarrow> double dims \<Rightarrow> error + xdouble" where
  "calculate_scale_factor m target_dims =
     (case extents m of
        None \<Rightarrow> Inl TypeError
      | Some (e0, e1, e2) \<Rightarrow>
          (let width_scale = np_divide (width target_dims) e0;
               depth_scale = np_divide (depth target_dims) e1;
               height_scale = np_divide (height target_dims) e2
           in Inr (py_min3 width_scale depth_scale height_scale)))"

text \<open>
  Mesh objects are mutable and shared by reference, so the mesh part of
  \<^verbatim>\<open>visualize_layouts_3d\<close> runs on an object store: a list of meshes, a reference being an
  index. \<^verbatim>\<open>mesh.copy()\<close> allocates a new object; \<^verbatim>\<open>apply_transform\<close> and
  \<^verbatim>\<open>apply_translation\<close> update the object they are called on in place.
\<close>

type_synonym store = "mesh list"

definition copy :: "store \<Rightarrow> nat \<Rightarrow> store \<times> nat" where
  "copy h r = (h @ [h ! r], length h)"

definition apply_transform :: "store \<Rightarrow> nat \<Rightarrow> double \<Rightarrow> store" where
  "apply_transform h r s = h[r := scale_mesh s (h ! r)]"

definition apply_translation :: "store \<Rightarrow> nat \<Rightarrow> vec3 \<Rightarrow> store" where
  "apply_translation h r t = h[r := translate_mesh t (h ! r)]"

text \<open>
  The \<^verbatim>\<open>if mesh is not None\<close> branch of \<^verbatim>\<open>visualize_layouts_3d\<close> up to the translation:
  \<^verbatim>\<open>scale_factor = calculate_scale_factor(mesh, dimensions)\<close>,
  \<^verbatim>\<open>scaled_mesh = mesh.copy()\<close>,
  \<^verbatim>\<open>scaled_mesh.apply_transform(scale_matrix(scale_factor))\<close>,
  \<^verbatim>\<open>scaled_mesh.apply_translation([position['x'], position['y'], 0])\<close>.
  The result is the final store with the reference of the mesh that is plotted, or the
  exception. With an infinite or NaN scale factor the code still makes the copy and
  transforms it; the coordinates of that copy are then no doubles of this model, and the
  result is \<open>NonFinite\<close> with the store as it is after the copy.
\<close>

definition scale_and_position :: "store \<Rightarrow> nat \<Rightarrow> double item \<Rightarrow> store \<times> (error + nat)" where
  "scale_and_position h mesh furniture =
     (case calculate_scale_factor (h ! mesh) (dimensions furniture) of
        Inl e \<Rightarrow> (h, Inl e)
      | Inr scale_factor \<Rightarrow>
          (let (h1, scaled_mesh) = copy h mesh
           in case scale_factor of
                Fin s \<Rightarrow>
                  (let h2 = apply_transform h1 scaled_mesh s;
                       h3 = apply_translation h2 scaled_mesh
                              (pos_x (position furniture), pos_y (position furniture), 0)
                   in (h3, Inr scaled_mesh))
              | _ \<Rightarrow> (h1, Inl NonFinite)))"

text \<open>The layout invariant: no item collides with an item placed after it.\<close>

definition collision_free :: "double item list \<Rightarrow> bool" where
  "collision_free ls = sorted_wrt (\<lambda>a b. \<not> check_collision a b) ls"

section \<open>Rounding\<close>

text \<open>
  Properties of the rounding function: it is monotone and idempotent, it commutes with
  negation and with scaling by a power of two, and its relative error is at most
  \<open>2\<^sup>-\<^sup>5\<^sup>3\<close>. \<open>fl_eqI\<close> and \<open>fl_rneI\<close> certify the double nearest to a given real from its
  significand and exponent.
\<close>

lemma rne_of_int [simp]: "rne (of_int n) = n"
  by (simp add: rne_def)

lemma rne_error: "\<bar>of_int (rne x) - x\<bar> \<le> 1 / 2"
  unfolding rne_def Let_def by (auto simp: abs_le_iff)

lemma rne_close:
  assumes "\<bar>x - of_int n\<bar> < 1 / 2"
  shows "rne x = n"
proof -
  have "\<bar>of_int (rne x) - x\<bar> \<le> 1 / 2" by (rule rne_error)
  with assms have "\<bar>(of_int (rne x) :: real) - of_int n\<bar> < 1" by linarith
  then have "\<bar>rne x - n\<bar> < 1"
    by (metis of_int_diff of_int_abs of_int_less_1_iff)
  then show ?thesis by simp
qed

lemma rne_mono:
  assumes "x \<le> y"
  shows "rne x \<le> rne y"
proof (rule ccontr)
  assume "\<not> rne x \<le> rne y"
  then have gt: "rne y + 1 \<le> rne x" by simp
  have ex: "\<bar>of_int (rne x) - x\<bar> \<le> 1 / 2" and ey: "\<bar>of_int (rne y) - y\<bar> \<le> 1 / 2"
    by (rule rne_error)+
  from gt have g: "(of_int (rne y) :: real) + 1 \<le> of_int (rne x)"
    by (metis of_int_1 of_int_add of_int_le_iff)
  with ex ey assms have eq: "x = y" "of_int (rne x) = x + 1 / 2" "of_int (rne y) = y - 1 / 2"
    by linarith+
  with gt show False by simp
qed

lemma rne_minus: "rne (- x) = - rne x"
proof (cases "x \<in> \<int>")
  case True
  then obtain n where "x = of_int n" by (auto elim: Ints_cases)
  then show ?thesis by (simp flip: of_int_minus)
next
  case False
  then have ne: "x \<noteq> of_int \<lfloor>x\<rfloor>" by (metis Ints_of_int)
  then have f: "\<lfloor>- x\<rfloor> = - \<lfloor>x\<rfloor> - 1"
    by (simp add: floor_minus ceiling_altdef)
  show ?thesis
    unfolding rne_def Let_def f
    by auto
qed

lemma two_powi_shift: "(2::real) ^ n * 2 powi e = 2 powi (e + int n)"
  by (simp add: power_int_add mult.commute)

lemma c52: "(2::real) ^ 52 * 2 powi e = 2 powi (e + 52)"
  using two_powi_shift [of 52 e] by simp

lemma c53: "(2::real) ^ 53 * 2 powi e = 2 powi (e + 53)"
  using two_powi_shift [of 53 e] by simp

lemma rne_numeral [simp]: "rne (numeral n) = numeral n"
  by (metis rne_of_int of_int_numeral)

lemma two_powr_int: "(2::real) powr (real_of_int k) = 2 powi k"
  by (rule powr_real_of_int') simp_all

lemma binade:
  assumes "x \<noteq> 0"
  shows "2 ^ 52 * 2 powi (\<lfloor>log 2 \<bar>x\<bar>\<rfloor> - 52) \<le> \<bar>x\<bar>
       \<and> \<bar>x\<bar> < 2 ^ 53 * 2 powi (\<lfloor>log 2 \<bar>x\<bar>\<rfloor> - 52)"
proof -
  let ?k = "\<lfloor>log 2 \<bar>x\<bar>\<rfloor>"
  from assms have pos: "0 < \<bar>x\<bar>" by simp
  have two: "(1::real) < 2" by simp
  from floor_log_eq_powr_iff [OF pos two, of ?k]
  have "2 powr (real_of_int ?k) \<le> \<bar>x\<bar>" "\<bar>x\<bar> < 2 powr (real_of_int (?k + 1))"
    by blast+
  then have f: "2 powi ?k \<le> \<bar>x\<bar>" "\<bar>x\<bar> < 2 powi (?k + 1)"
    unfolding two_powr_int by blast+
  have a: "(2::real) ^ 52 * 2 powi (?k - 52) = 2 powi ?k"
    unfolding c52 by simp
  have "?k - 52 + 53 = ?k + 1" by simp
  then have b: "(2::real) ^ 53 * 2 powi (?k - 52) = 2 powi (?k + 1)"
    unfolding c53 by (rule arg_cong)
  show ?thesis
    unfolding a b using f by (rule conjI)
qed

lemma binade_unique:
  assumes "2 ^ 52 * 2 powi e \<le> \<bar>x\<bar>" "\<bar>x\<bar> < 2 ^ 53 * 2 powi e"
  shows "\<lfloor>log 2 \<bar>x\<bar>\<rfloor> - 52 = e"
proof -
  have "0 < (2::real) ^ 52 * 2 powi e" by simp
  with assms(1) have pos: "0 < \<bar>x\<bar>" by linarith
  have two: "(1::real) < 2" by simp
  have k1: "e + 52 + 1 = e + 53" by simp
  from assms have "2 powi (e + 52) \<le> \<bar>x\<bar>" "\<bar>x\<bar> < 2 powi (e + 53)"
    unfolding c52 c53 by blast+
  then have "2 powr (real_of_int (e + 52)) \<le> \<bar>x\<bar>"
    "\<bar>x\<bar> < 2 powr (real_of_int (e + 52 + 1))"
    unfolding k1 two_powr_int by blast+
  with floor_log_eq_powr_iff [OF pos two, of "e + 52"]
  have "\<lfloor>log 2 \<bar>x\<bar>\<rfloor> = e + 52" by blast
  then show ?thesis by simp
qed

lemma fl_zero [simp]: "fl 0 = 0"
  by (simp add: fl_def)

lemma fl_eqI:
  assumes lo: "2 ^ 52 * 2 powi e \<le> \<bar>x\<bar>" and hi: "\<bar>x\<bar> < 2 ^ 53 * 2 powi e"
    and near: "\<bar>x - of_int m * 2 powi e\<bar> < 2 powi e / 2"
  shows "fl x = of_int m * 2 powi e"
proof -
  have p: "0 < (2::real) powi e" by simp
  have "0 < (2::real) ^ 52 * 2 powi e" by simp
  with lo have "0 < \<bar>x\<bar>" by linarith
  then have nz: "x \<noteq> 0" by simp
  have e: "\<lfloor>log 2 \<bar>x\<bar>\<rfloor> - 52 = e" using lo hi by (rule binade_unique)
  have "\<bar>x / 2 powi e - of_int m\<bar> = \<bar>x - of_int m * 2 powi e\<bar> / 2 powi e"
    using p by (simp add: field_simps abs_of_pos flip: abs_mult)
  also have "\<dots> < 1 / 2"
    using near p by (simp add: field_simps)
  finally have "rne (x / 2 powi e) = m" by (rule rne_close)
  with nz e show ?thesis by (simp add: fl_def Let_def)
qed

lemma fl_rneI:
  assumes lo: "2 ^ 52 * 2 powi e \<le> \<bar>x\<bar>" and hi: "\<bar>x\<bar> < 2 ^ 53 * 2 powi e"
    and r: "rne (x / 2 powi e) = m"
  shows "fl x = of_int m * 2 powi e"
proof -
  have "0 < (2::real) ^ 52 * 2 powi e" by simp
  with lo have "0 < \<bar>x\<bar>" by linarith
  then have nz: "x \<noteq> 0" by simp
  have e: "\<lfloor>log 2 \<bar>x\<bar>\<rfloor> - 52 = e" using lo hi by (rule binade_unique)
  with nz r show ?thesis by (simp add: fl_def Let_def)
qed

lemma fl_minus: "fl (- x) = - fl x"
  by (simp add: fl_def Let_def rne_minus)

lemma fl_error: "\<bar>fl x - x\<bar> \<le> \<bar>x\<bar> / 2 ^ 53"
proof (cases "x = 0")
  case True
  then show ?thesis by simp
next
  case False
  let ?e = "\<lfloor>log 2 \<bar>x\<bar>\<rfloor> - 52"
  have p: "0 < (2::real) powi ?e" by simp
  from binade [OF False] have lo: "2 ^ 52 * 2 powi ?e \<le> \<bar>x\<bar>" by simp
  have "\<bar>fl x - x\<bar> = \<bar>of_int (rne (x / 2 powi ?e)) - x / 2 powi ?e\<bar> * 2 powi ?e"
    using False p by (simp add: fl_def Let_def field_simps abs_of_pos flip: abs_mult)
  also have "\<dots> \<le> 1 / 2 * 2 powi ?e"
    using rne_error [of "x / 2 powi ?e"] p by (intro mult_right_mono) simp_all
  also have "\<dots> \<le> \<bar>x\<bar> / 2 ^ 53"
    using lo by (simp add: field_simps)
  finally show ?thesis .
qed

lemma fl_pos_lower:
  assumes "0 < x"
  shows "2 ^ 52 * 2 powi (\<lfloor>log 2 \<bar>x\<bar>\<rfloor> - 52) \<le> fl x"
proof -
  let ?e = "\<lfloor>log 2 \<bar>x\<bar>\<rfloor> - 52"
  have p: "0 < (2::real) powi ?e" by simp
  from assms binade [of x] have "2 ^ 52 * 2 powi ?e \<le> x" by simp
  then have "of_int (2 ^ 52) \<le> x / 2 powi ?e" using p by (simp add: field_simps)
  from rne_mono [OF this] have "(2::int) ^ 52 \<le> rne (x / 2 powi ?e)" by simp
  then have "(2::real) ^ 52 \<le> of_int (rne (x / 2 powi ?e))"
    by (metis of_int_le_iff of_int_numeral of_int_power)
  then show ?thesis
    using assms p by (simp add: fl_def Let_def)
qed

lemma fl_pos_upper:
  assumes "0 < x"
  shows "fl x \<le> 2 ^ 53 * 2 powi (\<lfloor>log 2 \<bar>x\<bar>\<rfloor> - 52)"
proof -
  let ?e = "\<lfloor>log 2 \<bar>x\<bar>\<rfloor> - 52"
  have p: "0 < (2::real) powi ?e" by simp
  from assms binade [of x] have "x < 2 ^ 53 * 2 powi ?e" by simp
  then have "x / 2 powi ?e \<le> of_int (2 ^ 53)" using p by (simp add: field_simps)
  from rne_mono [OF this] have "rne (x / 2 powi ?e) \<le> (2::int) ^ 53" by simp
  then have "of_int (rne (x / 2 powi ?e)) \<le> (2::real) ^ 53"
    by (metis of_int_le_iff of_int_numeral of_int_power)
  then show ?thesis
    using assms p by (simp add: fl_def Let_def)
qed

lemma fl_pos: "0 < x \<Longrightarrow> 0 < fl x"
proof -
  assume x: "0 < x"
  have "0 < (2::real) ^ 52 * 2 powi (\<lfloor>log 2 \<bar>x\<bar>\<rfloor> - 52)" by simp
  with fl_pos_lower [OF x] show ?thesis by linarith
qed

lemma fl_mono_pos:
  assumes "0 < x" "x \<le> y"
  shows "fl x \<le> fl y"
proof -
  let ?ex = "\<lfloor>log 2 \<bar>x\<bar>\<rfloor> - 52"
  let ?ey = "\<lfloor>log 2 \<bar>y\<bar>\<rfloor> - 52"
  from assms have y: "0 < y" by simp
  from assms have "log 2 \<bar>x\<bar> \<le> log 2 \<bar>y\<bar>" by simp
  then have le: "?ex \<le> ?ey" by (simp add: floor_mono)
  show ?thesis
  proof (cases "?ex = ?ey")
    case True
    have p: "0 < (2::real) powi ?ey" by simp
    from assms(2) p have "x / 2 powi ?ey \<le> y / 2 powi ?ey"
      by (simp add: divide_right_mono)
    from rne_mono [OF this]
    have "of_int (rne (x / 2 powi ?ey)) * 2 powi ?ey
            \<le> (of_int (rne (y / 2 powi ?ey)) :: real) * 2 powi ?ey"
      using p by (intro mult_right_mono) simp_all
    with True assms y show ?thesis by (simp add: fl_def Let_def)
  next
    case False
    with le have "?ex + 1 \<le> ?ey" by simp
    then have "(2::real) powi (?ex + 53) \<le> 2 powi (?ey + 52)"
      by (intro power_int_increasing) simp_all
    then have "(2::real) ^ 53 * 2 powi ?ex \<le> 2 ^ 52 * 2 powi ?ey"
      by (simp only: c52 c53)
    with fl_pos_upper [OF assms(1)] fl_pos_lower [OF y] show ?thesis by linarith
  qed
qed

lemma fl_mono:
  assumes "x \<le> y"
  shows "fl x \<le> fl y"
proof -
  consider "0 < x" | "x = 0" | "x < 0" "y < 0" | "x < 0" "y = 0" | "x < 0" "0 < y"
    by linarith
  then show ?thesis
  proof cases
    case 1
    with assms show ?thesis by (simp add: fl_mono_pos)
  next
    case 2
    with assms have "y = 0 \<or> 0 < y" by auto
    with 2 show ?thesis using fl_pos [of y] by auto
  next
    case 3
    with assms have "0 < - y" "- y \<le> - x" by simp_all
    from fl_mono_pos [OF this] show ?thesis by (simp add: fl_minus)
  next
    case 4
    then have "0 < fl (- x)" by (intro fl_pos) simp
    with 4 show ?thesis by (simp add: fl_minus)
  next
    case 5
    then have "0 < fl (- x)" "0 < fl y" by (simp_all add: fl_pos)
    then show ?thesis by (simp add: fl_minus)
  qed
qed

lemma fl_nonneg: "0 \<le> x \<Longrightarrow> 0 \<le> fl x"
  using fl_mono [of 0 x] by simp

lemma fl_repr:
  assumes "\<bar>m\<bar> < 2 ^ 53"
  shows "fl (of_int m * 2 powi e) = of_int m * 2 powi e"
proof (cases "m = 0")
  case True
  then show ?thesis by simp
next
  case False
  define x :: real where "x = of_int m * 2 powi e"
  define E where "E = \<lfloor>log 2 \<bar>x\<bar>\<rfloor> - 52"
  have pe: "0 < (2::real) powi e" and pE: "0 < (2::real) powi E" by simp_all
  from False have nz: "x \<noteq> 0" by (simp add: x_def)
  have ax: "\<bar>x\<bar> = of_int \<bar>m\<bar> * 2 powi e"
    by (simp add: x_def abs_mult)
  from assms have "(of_int \<bar>m\<bar> :: real) < 2 ^ 53"
    by (metis of_int_less_iff of_int_numeral of_int_power)
  then have "\<bar>x\<bar> < 2 ^ 53 * 2 powi e"
    unfolding ax using pe by (intro mult_strict_right_mono)
  moreover from binade [OF nz] have "2 ^ 52 * 2 powi E \<le> \<bar>x\<bar>"
    unfolding E_def by blast
  ultimately have "(2::real) ^ 52 * 2 powi E < 2 ^ 53 * 2 powi e" by linarith
  then have lt: "(2::real) powi (E + 52) < 2 powi (e + 53)"
    unfolding c52 c53 .
  have le: "E \<le> e"
  proof (rule ccontr)
    assume "\<not> E \<le> e"
    then have "e + 53 \<le> E + 52" by simp
    then have "(2::real) powi (e + 53) \<le> 2 powi (E + 52)"
      by (intro power_int_increasing) simp_all
    with lt show False by simp
  qed
  define d where "d = nat (e - E)"
  from le have "E + int d = e" by (simp add: d_def)
  with two_powi_shift [of d E] have sh: "(2::real) powi e = 2 ^ d * 2 powi E" by simp
  have "x / 2 powi E = of_int (m * 2 ^ d)"
    using pE by (simp add: x_def sh)
  then have "rne (x / 2 powi E) = m * 2 ^ d" by (simp only: rne_of_int)
  then have "fl x = of_int (m * 2 ^ d) * 2 powi E"
    using nz by (simp add: fl_def Let_def E_def)
  also have "\<dots> = x" by (simp add: x_def sh)
  finally show ?thesis by (simp only: x_def)
qed

lemma fl_idem [simp]: "fl (fl x) = fl x"
proof (cases "x = 0")
  case True
  then show ?thesis by simp
next
  case False
  define E where "E = \<lfloor>log 2 \<bar>x\<bar>\<rfloor> - 52"
  define y where "y = x / 2 powi E"
  define M where "M = rne y"
  have pE: "0 < (2::real) powi E" by simp
  have flx: "fl x = of_int M * 2 powi E"
    using False by (simp add: fl_def Let_def E_def y_def M_def)
  from binade [OF False] have "\<bar>x\<bar> < 2 ^ 53 * 2 powi E"
    unfolding E_def by blast
  then have "\<bar>x\<bar> / 2 powi E < 2 ^ 53"
    using pE by (simp add: field_simps)
  then have "\<bar>y\<bar> < 9007199254740992"
    using pE by (simp add: y_def abs_of_pos)
  then have "- 9007199254740992 \<le> y" "y \<le> 9007199254740992"
    by linarith+
  then have "rne (- 9007199254740992) \<le> M" "M \<le> rne 9007199254740992"
    unfolding M_def by (simp_all add: rne_mono del: rne_numeral)
  then have b: "- 9007199254740992 \<le> M" "M \<le> 9007199254740992"
    by (simp_all only: rne_minus rne_numeral)
  consider "\<bar>M\<bar> < 2 ^ 53" | "M = 2 ^ 53" | "M = - (2 ^ 53)"
    using b by simp linarith
  then show ?thesis
  proof cases
    case 1
    from fl_repr [OF this, of E] show ?thesis by (simp only: flx)
  next
    case 2
    have "fl x = of_int (2 ^ 52) * 2 powi (E + 1)"
      unfolding flx 2 by (simp add: power_int_add)
    moreover have "\<bar>2 ^ 52 :: int\<bar> < 2 ^ 53" by simp
    from fl_repr [OF this, of "E + 1"]
    have "fl (of_int (2 ^ 52) * 2 powi (E + 1)) = of_int (2 ^ 52) * 2 powi (E + 1)" .
    ultimately show ?thesis by simp
  next
    case 3
    have "fl x = of_int (- (2 ^ 52)) * 2 powi (E + 1)"
      unfolding flx 3 by (simp add: power_int_add)
    moreover have "\<bar>- (2 ^ 52) :: int\<bar> < 2 ^ 53" by simp
    from fl_repr [OF this, of "E + 1"]
    have "fl (of_int (- (2 ^ 52)) * 2 powi (E + 1)) = of_int (- (2 ^ 52)) * 2 powi (E + 1)" .
    ultimately show ?thesis by simp
  qed
qed

lemma fl_scale: "fl (x * 2 powi k) = fl x * 2 powi k"
proof (cases "x = 0")
  case True
  then show ?thesis by simp
next
  case False
  let ?E = "\<lfloor>log 2 \<bar>x\<bar>\<rfloor> - 52"
  have pk: "0 < (2::real) powi k" by simp
  from False have nz: "x * 2 powi k \<noteq> 0" by simp
  have ab: "\<bar>x * 2 powi k\<bar> = \<bar>x\<bar> * 2 powi k"
    by (simp add: abs_mult)
  have s: "(2::real) powi (?E + k) = 2 powi ?E * 2 powi k"
    by (simp add: power_int_add)
  from binade [OF False]
  have "2 ^ 52 * 2 powi ?E * 2 powi k \<le> \<bar>x\<bar> * 2 powi k"
    "\<bar>x\<bar> * 2 powi k < 2 ^ 53 * 2 powi ?E * 2 powi k"
    using pk by simp_all
  then have "2 ^ 52 * 2 powi (?E + k) \<le> \<bar>x * 2 powi k\<bar>"
    "\<bar>x * 2 powi k\<bar> < 2 ^ 53 * 2 powi (?E + k)"
    unfolding ab s by (simp_all add: mult.assoc)
  then have E: "\<lfloor>log 2 \<bar>x * 2 powi k\<bar>\<rfloor> - 52 = ?E + k"
    by (rule binade_unique)
  have "x * 2 powi k / 2 powi (?E + k) = x / 2 powi ?E"
    unfolding s by simp
  then show ?thesis
    using False nz by (simp add: fl_def Let_def E s)
qed

lemma fl_numeral [simp]: "numeral n < (2::int) ^ 53 \<Longrightarrow> fl (numeral n) = numeral n"
  using fl_repr [of "numeral n" 0] by simp

lemma fl_one [simp]: "fl 1 = 1"
  using fl_repr [of 1 0] by simp

lemma fl_neg [simp]: "fl (- x) = - fl x"
  by (rule fl_minus)

lemma fl_div2 [simp]: "fl (x / 2) = fl x / 2"
  using fl_scale [of x "- 1"] by (simp add: power_int_minus field_simps)

lemma fl_div4 [simp]: "fl (x / 4) = fl x / 4"
  using fl_scale [of x "- 2"] by (simp add: power_int_minus field_simps)

lemma fl_div8 [simp]: "fl (x / 8) = fl x / 8"
  using fl_scale [of x "- 3"] by (simp add: power_int_minus field_simps)

lemma fl_div16 [simp]: "fl (x / 16) = fl x / 16"
  using fl_scale [of x "- 4"] by (simp add: power_int_minus field_simps)

text \<open>
  The doubles nearest to the decimal literals 6.67, 22.77 and 1.1, and the rounded results
  of the operations on them that are used below.
\<close>

lemma fl_667: "fl (667 / 100) = 7509752378640302 / 2 ^ 50"
  using fl_eqI [of "- 50" "667 / 100" 7509752378640302] by simp

lemma fl_2277: "fl (2277 / 100) = 6409185219701637 / 2 ^ 48"
  using fl_eqI [of "- 48" "2277 / 100" 6409185219701637] by simp


lemma rne_t1: "rne (9063494250083123 / 2) = 4531747125041562"
  unfolding rne_def Let_def by simp

lemma rne_t2: "rne (12818370439403275 / 2) = 6409185219701638"
  unfolding rne_def Let_def by simp

lemma fl_envelope:
  "fl (6409185219701637 / 2 ^ 48 - 7509752378640302 / 2 ^ 50) = 4531747125041562 / 2 ^ 48"
  using fl_rneI [of "- 48" "6409185219701637 / 2 ^ 48 - 7509752378640302 / 2 ^ 50"
      4531747125041562]
  by (simp add: rne_t1)

lemma fl_far_end:
  "fl (4531747125041562 / 2 ^ 48 + 7509752378640302 / 2 ^ 50) = 6409185219701638 / 2 ^ 48"
  using fl_rneI [of "- 48" "4531747125041562 / 2 ^ 48 + 7509752378640302 / 2 ^ 50"
      6409185219701638]
  by (simp add: rne_t2)



section \<open>Arithmetic of doubles\<close>

lemmas double_ops = zero_double_def one_double_def plus_double_def minus_double_def
  uminus_double_def times_double_def divide_double_def less_eq_double_def less_double_def
  dbl_def

lemma val_zero [simp]: "val 0 = 0"
  by (simp add: zero_double_def)

lemma val_one [simp]: "val 1 = 1"
  by (simp add: one_double_def)

lemma val_dbl [simp]: "val (dbl x) = fl x"
  by (simp add: dbl_def)

lemma val_plus [simp]: "val (a + b) = fl (val a + val b)"
  by (simp add: plus_double_def)

lemma val_minus [simp]: "val (a - b) = fl (val a - val b)"
  by (simp add: minus_double_def)

lemma val_times [simp]: "val (a * b) = fl (val a * val b)"
  by (simp add: times_double_def)

lemma val_divide [simp]: "val (a / b) = fl (val a / val b)"
  by (simp add: divide_double_def)

lemma val_max: "val (max a b) = max (val a) (val b)"
  by (simp add: max_def less_eq_double_def)

lemma val_min: "val (min a b) = min (val a) (val b)"
  by (simp add: min_def less_eq_double_def)



text \<open>The clamp and the uniform sample stay between 0 and the upper end of the envelope.\<close>

lemma clamp_range:
  assumes "0 \<le> val h"
  shows "0 \<le> val (max 0 (min p h)) \<and> val (max 0 (min p h)) \<le> val h"
  using assms by (simp add: val_max val_min)

lemma uniform_range:
  assumes h: "0 \<le> val h" and rep: "fl (val h) = val h"
    and u: "0 \<le> val u" "val u \<le> 1"
  shows "0 \<le> val (uniform 0 h u) \<and> val (uniform 0 h u) \<le> val h"
proof -
  have v: "val (uniform 0 h u) = fl (val h * val u)"
    by (simp add: uniform_def rep)
  have "0 \<le> val h * val u" using h u by simp
  then have lo: "0 \<le> fl (val h * val u)" by (rule fl_nonneg)
  have "val h * val u \<le> val h * 1" using h u by (intro mult_left_mono) simp_all
  then have "fl (val h * val u) \<le> fl (val h)" by (intro fl_mono) simp
  with lo rep v show ?thesis by simp
qed

lemma envelope:
  assumes "val w \<le> val r"
  shows "0 \<le> val (r - w)" "fl (val (r - w)) = val (r - w)"
    "val (r - w) \<le> val r - val w + (val r - val w) / 2 ^ 53"
proof -
  define d where "d = val r - val w"
  define t where "t = d / 2 ^ 53"
  from assms have nn: "0 \<le> d" by (simp add: d_def)
  have v: "val (r - w) = fl d" by (simp add: d_def)
  from nn show "0 \<le> val (r - w)" unfolding v by (rule fl_nonneg)
  show "fl (val (r - w)) = val (r - w)" by simp
  have "\<bar>fl d - d\<bar> \<le> \<bar>d\<bar> / 2 ^ 53" by (rule fl_error)
  with nn have "fl d - d \<le> t" unfolding t_def by linarith
  then have "fl d \<le> d + t" by linarith
  then show "val (r - w) \<le> val r - val w + (val r - val w) / 2 ^ 53"
    unfolding v t_def d_def .
qed

section \<open>Evaluation rules\<close>

text \<open>
  Unfolding rules for evaluating the functions on concrete inputs.
\<close>

lemmas eval_simps = generate_layouts_def predict_def features_def place_furniture_def
  place_item.simps candidate_def random_candidate_def uniform_def mk_item_def
  get_furniture_dimensions_def dimensions_table_def mk_dims_def dims_as_double_def
  check_collision_def init_state_def max_attempts_def prediction_at_def double_ops
  max_def min_def

lemmas mesh_eval = scale_and_position_def calculate_scale_factor_def extents_def xs_of_def
  ys_of_def zs_of_def copy_def apply_transform_def apply_translation_def scale_mesh_def
  translate_mesh_def bounds_min_def bounds_max_def mk_item_def mk_dims_def dims_as_double_def
  np_divide_def py_min3_def Let_def double_ops max_def min_def

section \<open>Collision test and catalog\<close>



text \<open>
  Claim C10. The collision test is symmetric, for any carrier of the coordinates with
  an addition and an order; the doubles are one such carrier.
\<close>

theorem check_collision_symmetric:
  "check_collision a b = check_collision b a"
  by (auto simp: check_collision_def Let_def)

text \<open>
  Claim C9. \<open>get_furniture_dimensions\<close> is a total function: a name outside the catalog
  gets the default \<open>2 \<times> 2 \<times> 2\<close>, and a catalogued name gets its entry.
\<close>

theorem get_furniture_dimensions_total:
  "(furniture_type \<notin> fst ` set dimensions_table \<longrightarrow>
      get_furniture_dimensions furniture_type = \<lparr>width = 2, depth = 2, height = 2\<rparr>)
   \<and> (\<forall>d. (furniture_type, d) \<in> set dimensions_table \<longrightarrow>
      get_furniture_dimensions furniture_type = d)"
proof (intro conjI impI allI)
  assume "furniture_type \<notin> fst ` set dimensions_table"
  then have "map_of dimensions_table furniture_type = None"
    by (simp add: map_of_eq_None_iff)
  then show "get_furniture_dimensions furniture_type = \<lparr>width = 2, depth = 2, height = 2\<rparr>"
    by (simp add: get_furniture_dimensions_def mk_dims_def)
next
  fix d
  assume mem: "(furniture_type, d) \<in> set dimensions_table"
  have "distinct (map fst dimensions_table)"
    by (simp add: dimensions_table_def)
  from this mem have "map_of dimensions_table furniture_type = Some d"
    by (rule map_of_is_SomeI)
  then show "get_furniture_dimensions furniture_type = d"
    by (simp add: get_furniture_dimensions_def)
qed

text \<open>
  \<open>''Piano''\<close> is not in the catalog and gets the default; \<open>''Bed''\<close> gets its entry.
\<close>

theorem get_furniture_dimensions_total_witness:
  "''Piano'' \<notin> fst ` set dimensions_table
   \<and> get_furniture_dimensions ''Piano'' = \<lparr>width = 2, depth = 2, height = 2\<rparr>
   \<and> (''Bed'', \<lparr>width = 667 / 100, depth = 5, height = 5 / 2\<rparr>) \<in> set dimensions_table
   \<and> get_furniture_dimensions ''Bed'' = \<lparr>width = 667 / 100, depth = 5, height = 5 / 2\<rparr>"
proof -
  have a: "''Piano'' \<notin> fst ` set dimensions_table"
    by (simp add: dimensions_table_def)
  have b: "(''Bed'', \<lparr>width = 667 / 100, depth = 5, height = 5 / 2\<rparr>) \<in> set dimensions_table"
    by (simp add: dimensions_table_def mk_dims_def)
  from a b get_furniture_dimensions_total [of "''Piano''"]
    get_furniture_dimensions_total [of "''Bed''"]
  show ?thesis by blast
qed

section \<open>The placement loop\<close>

lemma check_collision_commute:
  "check_collision a b = check_collision b a"
  by (auto simp: check_collision_def Let_def)

lemma has_collision_iff:
  "has_collision new_item ls \<longleftrightarrow> (\<exists>e \<in> set ls. check_collision new_item e)"
  by (induction ls) auto

lemma place_item_Inr:
  "place_item predictions rng rm i furniture furniture_dims attempts st = Inr (placed, n, st')
   \<Longrightarrow> warnings st' = warnings st \<and> attempts \<le> n \<and>
       (if placed
        then n < max_attempts \<and>
             (\<exists>px py k0 k. candidate predictions rng rm i furniture_dims n k0 = Inr (px, py, k)
                \<and> \<not> has_collision (mk_item furniture px py furniture_dims) (layouts st)
                \<and> layouts st' = layouts st @ [mk_item furniture px py furniture_dims])
        else layouts st' = layouts st \<and> max_attempts \<le> n)"
proof (induction predictions rng rm i furniture furniture_dims attempts st
       rule: place_item.induct)
  case (1 predictions rng rm i furniture furniture_dims attempts st)
  show ?case
  proof (cases "attempts < max_attempts")
    case False
    with "1.prems" show ?thesis
      by (simp add: place_item.simps [of _ _ _ _ _ _ attempts])
  next
    case True
    note lt = this
    show ?thesis
    proof (cases "candidate predictions rng rm i furniture_dims attempts (draws st)")
      case (Inl e)
      with lt "1.prems" show ?thesis
        by (simp add: place_item.simps [of _ _ _ _ _ _ attempts])
    next
      case (Inr c)
      obtain px py k where c: "c = (px, py, k)" by (cases c) auto
      show ?thesis
      proof (cases "has_collision (mk_item furniture px py furniture_dims) (layouts st)")
        case False
        with lt Inr c "1.prems"
        have r: "placed" "n = attempts"
          "st' = st\<lparr>layouts := layouts st @ [mk_item furniture px py furniture_dims],
                    draws := k\<rparr>"
          by (auto simp: place_item.simps [of _ _ _ _ _ _ attempts])
        have "\<exists>px py k0 k. candidate predictions rng rm i furniture_dims n k0 = Inr (px, py, k)
                \<and> \<not> has_collision (mk_item furniture px py furniture_dims) (layouts st)
                \<and> layouts st' = layouts st @ [mk_item furniture px py furniture_dims]"
          using Inr c False r by (intro exI [of _ px] exI [of _ py] exI [of _ "draws st"]
              exI [of _ k]) simp
        with r lt show ?thesis by simp
      next
        case True
        with lt Inr c "1.prems"
        have rec: "place_item predictions rng rm i furniture furniture_dims (attempts + 1)
                 (st\<lparr>draws := k\<rparr>) = Inr (placed, n, st')"
          by (simp add: place_item.simps [of _ _ _ _ _ _ attempts])
        from "1.IH" [OF lt Inr c [symmetric] refl _ rec] True show ?thesis
          by (auto split: if_splits)
      qed
    qed
  qed
qed

lemma candidate_shape:
  assumes "case predictions of None \<Rightarrow> True | Some p \<Rightarrow> i < length p \<and> 2 \<le> length (p ! i)"
  shows "\<exists>px py k'. candidate predictions rng rm i furniture_dims attempts k = Inr (px, py, k')
           \<and> k' \<le> k + 2"
  using assms
  by (auto simp: candidate_def random_candidate_def prediction_at_def split: option.splits)

lemma place_item_total:
  assumes "case predictions of None \<Rightarrow> True | Some p \<Rightarrow> i < length p \<and> 2 \<le> length (p ! i)"
  shows "\<exists>placed n st'.
           place_item predictions rng rm i furniture furniture_dims attempts st
             = Inr (placed, n, st')
           \<and> n \<le> max attempts max_attempts
           \<and> draws st' + 2 * attempts \<le> draws st + 2 * n + (if placed then 2 else 0)"
  using assms
proof (induction predictions rng rm i furniture furniture_dims attempts st
       rule: place_item.induct)
  case (1 predictions rng rm i furniture furniture_dims attempts st)
  show ?case
  proof (cases "attempts < max_attempts")
    case False
    then show ?thesis
      by (intro exI [of _ False] exI [of _ attempts] exI [of _ st])
         (simp add: max_def place_item.simps [of _ _ _ _ _ _ attempts])
  next
    case True
    note lt = this
    from candidate_shape [OF "1.prems"]
    obtain px py k where c:
      "candidate predictions rng rm i furniture_dims attempts (draws st) = Inr (px, py, k)"
      and k: "k \<le> draws st + 2"
      by blast
    show ?thesis
    proof (cases "has_collision (mk_item furniture px py furniture_dims) (layouts st)")
      case False
      with lt c k show ?thesis
        by (intro exI [of _ True] exI [of _ attempts]
              exI [of _ "st\<lparr>layouts := layouts st @ [mk_item furniture px py furniture_dims],
                          draws := k\<rparr>"])
           (simp add: max_def place_item.simps [of _ _ _ _ _ _ attempts])
    next
      case True
      from "1.IH" [OF lt c refl refl _ "1.prems"] True
      obtain placed n st' where
        r: "place_item predictions rng rm i furniture furniture_dims (attempts + 1)
              (st\<lparr>draws := k\<rparr>) = Inr (placed, n, st')"
        and b: "n \<le> max (attempts + 1) max_attempts"
          "draws st' + 2 * (attempts + 1) \<le> draws (st\<lparr>draws := k\<rparr>) + 2 * n
                  + (if placed then 2 else 0)"
        by auto
      have "place_item predictions rng rm i furniture furniture_dims attempts st
              = Inr (placed, n, st')"
        using lt c True r by (simp add: place_item.simps [of _ _ _ _ _ _ attempts])
      moreover have "n \<le> max attempts max_attempts"
        using b lt by (simp add: max_def)
      moreover have "draws st' + 2 * attempts \<le> draws st + 2 * n + (if placed then 2 else 0)"
        using b k by (simp split: if_splits)
      ultimately show ?thesis by blast
    qed
  qed
qed

lemma place_item_empty:
  assumes "case predictions of None \<Rightarrow> True | Some p \<Rightarrow> i < length p \<and> 2 \<le> length (p ! i)"
    and "layouts st = []"
  shows "\<exists>st'. place_item predictions rng rm i furniture furniture_dims 0 st = Inr (True, 0, st')"
proof -
  from candidate_shape [OF assms(1)]
  obtain px py k where
    "candidate predictions rng rm i furniture_dims 0 (draws st) = Inr (px, py, k)"
    by blast
  with assms(2) show ?thesis
    by (simp add: max_attempts_def place_item.simps [of _ _ _ _ _ _ 0])
qed

lemma place_furniture_Inr:
  assumes "place_furniture predictions rng rm i furniture st = Inr st'"
  shows "(\<exists>px py n k0 k. n < max_attempts
            \<and> candidate predictions rng rm i (dims_as_double (get_furniture_dimensions furniture)) n k0
                = Inr (px, py, k)
            \<and> \<not> has_collision (mk_item furniture px py (dims_as_double (get_furniture_dimensions furniture)))
                  (layouts st)
            \<and> layouts st' = layouts st @ [mk_item furniture px py (dims_as_double (get_furniture_dimensions furniture))]
            \<and> warnings st' = warnings st)
         \<or> (layouts st' = layouts st \<and> warnings st' = warnings st @ [furniture])"
proof (cases "place_item predictions rng rm i furniture (dims_as_double (get_furniture_dimensions furniture)) 0 st")
  case (Inl e)
  with assms show ?thesis by (simp add: place_furniture_def)
next
  case (Inr r)
  obtain placed n st1 where r: "r = (placed, n, st1)" by (cases r) auto
  from assms Inr r
  have s: "st' = (if \<not> placed then st1\<lparr>warnings := warnings st1 @ [furniture]\<rparr> else st1)"
    by (simp add: place_furniture_def)
  from Inr r have run:
    "place_item predictions rng rm i furniture (dims_as_double (get_furniture_dimensions furniture)) 0 st
       = Inr (placed, n, st1)" by simp
  show ?thesis
  proof (cases placed)
    case True
    with place_item_Inr [OF run] s show ?thesis by simp blast
  next
    case False
    with place_item_Inr [OF run] s show ?thesis by simp
  qed
qed

lemma place_all_invariant:
  assumes "place_all predictions rng rm i fs st = Inr st'"
    and "Q (layouts st) (warnings st)"
    and placed: "\<And>ls ws f px py n k0 k j. f \<in> set fs \<Longrightarrow> Q ls ws \<Longrightarrow> n < max_attempts \<Longrightarrow>
       candidate predictions rng rm j (dims_as_double (get_furniture_dimensions f)) n k0 = Inr (px, py, k) \<Longrightarrow>
       \<not> has_collision (mk_item f px py (dims_as_double (get_furniture_dimensions f))) ls \<Longrightarrow>
       Q (ls @ [mk_item f px py (dims_as_double (get_furniture_dimensions f))]) ws"
    and unplaced: "\<And>ls ws f. f \<in> set fs \<Longrightarrow> Q ls ws \<Longrightarrow> Q ls (ws @ [f])"
  shows "Q (layouts st') (warnings st')"
  using assms
proof (induction fs arbitrary: i st)
  case Nil
  then show ?case by simp
next
  case (Cons f rest)
  show ?case
  proof (cases "place_furniture predictions rng rm i f st")
    case (Inl e)
    with Cons.prems(1) show ?thesis by simp
  next
    case (Inr st1)
    with Cons.prems(1) have more: "place_all predictions rng rm (Suc i) rest st1 = Inr st'"
      by simp
    have f: "f \<in> set (f # rest)" by simp
    from place_furniture_Inr [OF Inr] have q1: "Q (layouts st1) (warnings st1)"
    proof (elim disjE exE conjE)
      fix px py n k0 k
      assume "n < max_attempts"
        "candidate predictions rng rm i (dims_as_double (get_furniture_dimensions f)) n k0 = Inr (px, py, k)"
        "\<not> has_collision (mk_item f px py (dims_as_double (get_furniture_dimensions f))) (layouts st)"
        "layouts st1 = layouts st @ [mk_item f px py (dims_as_double (get_furniture_dimensions f))]"
        "warnings st1 = warnings st"
      with Cons.prems(3) [OF f Cons.prems(2)] show ?thesis by simp
    next
      assume "layouts st1 = layouts st" "warnings st1 = warnings st @ [f]"
      with Cons.prems(4) [OF f Cons.prems(2)] show ?thesis by simp
    qed
    show ?thesis
    proof (rule Cons.IH [OF more q1])
      fix ls ws g px py n k0 k j
      assume "g \<in> set rest" "Q ls ws" "n < max_attempts"
        "candidate predictions rng rm j (dims_as_double (get_furniture_dimensions g)) n k0 = Inr (px, py, k)"
        "\<not> has_collision (mk_item g px py (dims_as_double (get_furniture_dimensions g))) ls"
      then show "Q (ls @ [mk_item g px py (dims_as_double (get_furniture_dimensions g))]) ws"
        using Cons.prems(3) [of g ls ws n j k0 px py k] by simp
    next
      fix ls ws g
      assume "g \<in> set rest" "Q ls ws"
      then show "Q ls (ws @ [g])"
        using Cons.prems(4) [of g ls ws] by simp
    qed
  qed
qed

lemma generate_layouts_Inr:
  assumes "generate_layouts model rng rm fs = Inr (layout, warns)"
  shows "\<exists>predictions st'. predict model (features rm fs) = Inr predictions
           \<and> place_all predictions rng rm 0 fs init_state = Inr st'
           \<and> layout = layouts st' \<and> warns = warnings st'"
proof (cases "predict model (features rm fs)")
  case (Inl e)
  with assms show ?thesis by (simp add: generate_layouts_def)
next
  case (Inr predictions)
  note p = this
  show ?thesis
  proof (cases "place_all predictions rng rm 0 fs init_state")
    case (Inl e)
    with assms p show ?thesis by (simp add: generate_layouts_def)
  next
    case (Inr st')
    with assms p show ?thesis by (simp add: generate_layouts_def)
  qed
qed

lemma collision_free_snoc:
  assumes "collision_free ls" and "\<not> has_collision new_item ls"
  shows "collision_free (ls @ [new_item])"
proof -
  from assms(2) have "\<forall>e \<in> set ls. \<not> check_collision e new_item"
    by (simp add: has_collision_iff check_collision_commute [of new_item])
  with assms(1) show ?thesis
    by (simp add: collision_free_def sorted_wrt_append)
qed

lemma collision_free_nth:
  assumes "collision_free ls" "i < length ls" "j < length ls" "i \<noteq> j"
  shows "\<not> check_collision (ls ! i) (ls ! j)"
proof (cases "i < j")
  case True
  with assms show ?thesis
    by (simp add: collision_free_def sorted_wrt_iff_nth_less)
next
  case False
  with assms have "j < i" by simp
  with assms have "\<not> check_collision (ls ! j) (ls ! i)"
    by (simp add: collision_free_def sorted_wrt_iff_nth_less)
  then show ?thesis
    by (simp add: check_collision_commute [of "ls ! i"])
qed

text \<open>
  Claim C1. In every layout returned by \<open>generate_layouts\<close>, any two distinct placed
  items do not collide under \<open>check_collision\<close>, whatever the model, the generator, the
  room and the furniture list are.
\<close>

theorem generate_layouts_no_overlap:
  assumes "generate_layouts model rng rm selected_furniture = Inr (layout, warns)"
  shows "\<forall>i j. i < length layout \<and> j < length layout \<and> i \<noteq> j
           \<longrightarrow> \<not> check_collision (layout ! i) (layout ! j)"
proof -
  from generate_layouts_Inr [OF assms] obtain predictions st' where
    run: "place_all predictions rng rm 0 selected_furniture init_state = Inr st'"
    and layout: "layout = layouts st'"
    by blast
  have "collision_free (layouts st')"
  proof (rule place_all_invariant [OF run, where Q = "\<lambda>ls ws. collision_free ls"])
    show "collision_free (layouts init_state)"
      by (simp add: init_state_def collision_free_def)
  qed (simp_all add: collision_free_snoc)
  with layout show ?thesis
    by (auto dest: collision_free_nth)
qed

text \<open>
  A sofa and an armchair in a 16 by 16 room, without a model: both are placed and they
  do not collide.
\<close>

theorem generate_layouts_no_overlap_witness:
  "generate_layouts None (\<lambda>k. if k < 2 then 0 else dbl (1 / 2))
     \<lparr>room_width = dbl 16, room_length = dbl 16, room_height = dbl 8\<rparr> [''Sofa'', ''Armchair'']
     = Inr ([mk_item ''Sofa'' 0 0 (dims_as_double (mk_dims 6 3 3)),
             mk_item ''Armchair'' (dbl (13 / 2)) (dbl (13 / 2)) (dims_as_double (mk_dims 3 3 3))],
            [])
   \<and> \<not> check_collision (mk_item ''Sofa'' 0 0 (dims_as_double (mk_dims 6 3 3)))
          (mk_item ''Armchair'' (dbl (13 / 2)) (dbl (13 / 2)) (dims_as_double (mk_dims 3 3 3)))
   \<and> \<not> check_collision
          (mk_item ''Armchair'' (dbl (13 / 2)) (dbl (13 / 2)) (dims_as_double (mk_dims 3 3 3)))
          (mk_item ''Sofa'' 0 0 (dims_as_double (mk_dims 6 3 3)))"
proof -
  let ?L = "[mk_item ''Sofa'' 0 0 (dims_as_double (mk_dims 6 3 3)),
             mk_item ''Armchair'' (dbl (13 / 2)) (dbl (13 / 2)) (dims_as_double (mk_dims 3 3 3))]"
  have ev: "generate_layouts None (\<lambda>k. if k < 2 then 0 else dbl (1 / 2))
     \<lparr>room_width = dbl 16, room_length = dbl 16, room_height = dbl 8\<rparr> [''Sofa'', ''Armchair'']
     = Inr (?L, [])"
    by (simp add: eval_simps)
  note all = generate_layouts_no_overlap [OF ev, rule_format]
  have "\<not> check_collision (?L ! 0) (?L ! 1)" by (rule all) simp
  moreover have "\<not> check_collision (?L ! 1) (?L ! 0)" by (rule all) simp
  ultimately show ?thesis using ev by simp
qed

section \<open>Attempt budget\<close>

text \<open>
  Claim C3 as stated fails. A sofa is 6 wide; in a 4 by 4 room it is not recorded as
  unplaced: it is the first item, nothing can collide with it, and it is placed on the
  first attempt, with a model and without one.
\<close>

theorem place_furniture_budget_counterexample:
  "room_width \<lparr>room_width = dbl 4, room_length = dbl 4, room_height = dbl 8\<rparr>
     < width (dims_as_double (get_furniture_dimensions ''Sofa''))
   \<and> generate_layouts (Some (\<lambda>X. Inr (map (\<lambda>_. [dbl (1 / 2), dbl (1 / 2)]) X)))
       (\<lambda>k. dbl (1 / 2))
       \<lparr>room_width = dbl 4, room_length = dbl 4, room_height = dbl 8\<rparr> [''Sofa'']
       = Inr ([mk_item ''Sofa'' 0 1 (dims_as_double (mk_dims 6 3 3))], [])
   \<and> generate_layouts None (\<lambda>k. dbl (1 / 2))
       \<lparr>room_width = dbl 4, room_length = dbl 4, room_height = dbl 8\<rparr> [''Sofa'']
       = Inr ([mk_item ''Sofa'' (- 1) (dbl (1 / 2)) (dims_as_double (mk_dims 6 3 3))], [])"
  by (simp add: eval_simps)

lemma candidate_draws:
  assumes "candidate predictions rng rm i d a (draws_before predictions k0 a) = Inr (px, py, k)"
  shows "k = draws_before predictions k0 (a + 1)"
  using assms
  by (auto simp: candidate_def random_candidate_def draws_before_def
      split: option.splits if_splits sum.splits)

lemma place_item_trace:
  assumes "place_item predictions rng rm i furniture furniture_dims a st = Inr (placed, n, st')"
    and "draws st = draws_before predictions k0 a"
  shows "(\<forall>m. a \<le> m \<and> m < n \<longrightarrow>
            (\<exists>px py k. candidate predictions rng rm i furniture_dims m
                           (draws_before predictions k0 m) = Inr (px, py, k)
                 \<and> has_collision (mk_item furniture px py furniture_dims) (layouts st)))
       \<and> (placed \<longrightarrow>
            (\<exists>px py k. candidate predictions rng rm i furniture_dims n
                           (draws_before predictions k0 n) = Inr (px, py, k)
                 \<and> \<not> has_collision (mk_item furniture px py furniture_dims) (layouts st)
                 \<and> layouts st' = layouts st @ [mk_item furniture px py furniture_dims]
                 \<and> draws st' = k))"
  using assms
proof (induction predictions rng rm i furniture furniture_dims a st
       rule: place_item.induct)
  case (1 predictions rng rm i furniture furniture_dims attempts st)
  note dr = "1.prems"(2)
  show ?case
  proof (cases "attempts < max_attempts")
    case False
    with "1.prems"(1) show ?thesis
      by (auto simp: place_item.simps [of _ _ _ _ _ _ attempts])
  next
    case True
    note lt = this
    show ?thesis
    proof (cases "candidate predictions rng rm i furniture_dims attempts (draws st)")
      case (Inl e)
      with lt "1.prems"(1) show ?thesis
        by (simp add: place_item.simps [of _ _ _ _ _ _ attempts])
    next
      case (Inr c)
      obtain px py k where c: "c = (px, py, k)" by (cases c) auto
      from Inr c dr have cand:
        "candidate predictions rng rm i furniture_dims attempts
           (draws_before predictions k0 attempts) = Inr (px, py, k)"
        by simp
      show ?thesis
      proof (cases "has_collision (mk_item furniture px py furniture_dims) (layouts st)")
        case False
        with lt Inr c "1.prems"(1)
        have r: "placed" "n = attempts"
          "st' = st\<lparr>layouts := layouts st @ [mk_item furniture px py furniture_dims],
                    draws := k\<rparr>"
          by (auto simp: place_item.simps [of _ _ _ _ _ _ attempts])
        have "\<exists>px py k. candidate predictions rng rm i furniture_dims n
                           (draws_before predictions k0 n) = Inr (px, py, k)
                 \<and> \<not> has_collision (mk_item furniture px py furniture_dims) (layouts st)
                 \<and> layouts st' = layouts st @ [mk_item furniture px py furniture_dims]
                 \<and> draws st' = k"
          using cand False r by (intro exI [of _ px] exI [of _ py] exI [of _ k]) simp
        moreover have "\<not> (attempts \<le> m \<and> m < n)" for m
          using r by simp
        ultimately show ?thesis using r by blast
      next
        case True
        with lt Inr c "1.prems"(1)
        have rec: "place_item predictions rng rm i furniture furniture_dims (attempts + 1)
                 (st\<lparr>draws := k\<rparr>) = Inr (placed, n, st')"
          by (simp add: place_item.simps [of _ _ _ _ _ _ attempts])
        from candidate_draws [OF cand]
        have dr': "draws (st\<lparr>draws := k\<rparr>) = draws_before predictions k0 (attempts + 1)"
          by simp
        note ih = "1.IH" [OF lt Inr c [symmetric] refl _ rec dr']
        have first: "\<exists>px py k. candidate predictions rng rm i furniture_dims attempts
                           (draws_before predictions k0 attempts) = Inr (px, py, k)
                 \<and> has_collision (mk_item furniture px py furniture_dims) (layouts st)"
          using cand True by blast
        have "\<exists>px py k. candidate predictions rng rm i furniture_dims m
                           (draws_before predictions k0 m) = Inr (px, py, k)
                 \<and> has_collision (mk_item furniture px py furniture_dims) (layouts st)"
          if "attempts \<le> m" "m < n" for m
        proof (cases "m = attempts")
          case True
          with first show ?thesis by simp
        next
          case False
          with that have "attempts + 1 \<le> m \<and> m < n" by simp
          with ih True show ?thesis by simp
        qed
        with ih True show ?thesis by simp
      qed
    qed
  qed
qed

text \<open>
  Claim C3, amended. For every item, oversized or not, with the predictions absent or
  holding a row of at least two entries for the item, the placement loop returns without
  an exception after at most 50 attempts. Every attempt before the last one produced a
  candidate, the one the code computes from the draws consumed so far, and that candidate
  collided with an item of the layout. Either the item is appended to the layout at the
  candidate of the last attempt, which collides with no item placed before it, or all 50
  candidates collided, the layout is unchanged and a warning is recorded; the second case
  needs a non-empty layout. The room is never compared with the item.
\<close>

theorem place_furniture_budget:
  assumes shape: "case predictions of None \<Rightarrow> True
                  | Some p \<Rightarrow> i < length p \<and> 2 \<le> length (p ! i)"
  shows "\<exists>placed attempts st1.
           place_item predictions rng rm i furniture
               (dims_as_double (get_furniture_dimensions furniture)) 0 st
             = Inr (placed, attempts, st1)
         \<and> attempts \<le> max_attempts
         \<and> place_furniture predictions rng rm i furniture st
             = Inr (if placed then st1 else st1\<lparr>warnings := warnings st1 @ [furniture]\<rparr>)
         \<and> warnings st1 = warnings st
         \<and> (\<forall>n < attempts.
               \<exists>px py k.
                 candidate predictions rng rm i
                     (dims_as_double (get_furniture_dimensions furniture)) n
                     (draws_before predictions (draws st) n) = Inr (px, py, k)
               \<and> has_collision
                     (mk_item furniture px py
                        (dims_as_double (get_furniture_dimensions furniture)))
                     (layouts st))
         \<and> (if placed
            then attempts < max_attempts
               \<and> (\<exists>px py k.
                     candidate predictions rng rm i
                         (dims_as_double (get_furniture_dimensions furniture)) attempts
                         (draws_before predictions (draws st) attempts) = Inr (px, py, k)
                   \<and> \<not> has_collision
                         (mk_item furniture px py
                            (dims_as_double (get_furniture_dimensions furniture)))
                         (layouts st)
                   \<and> layouts st1
                       = layouts st
                         @ [mk_item furniture px py
                              (dims_as_double (get_furniture_dimensions furniture))]
                   \<and> draws st1 = k)
            else attempts = max_attempts \<and> layouts st1 = layouts st \<and> layouts st \<noteq> [])"
proof -
  let ?d = "dims_as_double (get_furniture_dimensions furniture)"
  from place_item_total [OF shape, where rng = rng and rm = rm and furniture = furniture
      and furniture_dims = ?d and attempts = 0 and st = st]
  obtain placed n st1 where
    r: "place_item predictions rng rm i furniture ?d 0 st = Inr (placed, n, st1)"
    and n: "n \<le> max_attempts"
    by auto
  note facts = place_item_Inr [OF r]
  have d0: "draws st = draws_before predictions (draws st) 0"
    by (simp add: draws_before_def split: option.splits)
  note trace = place_item_trace [OF r d0]
  have pf: "place_furniture predictions rng rm i furniture st
             = Inr (if placed then st1 else st1\<lparr>warnings := warnings st1 @ [furniture]\<rparr>)"
    using r by (simp add: place_furniture_def)
  have coll: "\<forall>m < n. \<exists>px py k.
                 candidate predictions rng rm i ?d m
                     (draws_before predictions (draws st) m) = Inr (px, py, k)
               \<and> has_collision (mk_item furniture px py ?d) (layouts st)"
    using trace by simp
  have last: "if placed
            then n < max_attempts
               \<and> (\<exists>px py k.
                     candidate predictions rng rm i ?d n
                         (draws_before predictions (draws st) n) = Inr (px, py, k)
                   \<and> \<not> has_collision (mk_item furniture px py ?d) (layouts st)
                   \<and> layouts st1 = layouts st @ [mk_item furniture px py ?d]
                   \<and> draws st1 = k)
            else n = max_attempts \<and> layouts st1 = layouts st \<and> layouts st \<noteq> []"
  proof (cases placed)
    case True
    with facts trace show ?thesis by simp
  next
    case False
    have "layouts st \<noteq> []"
    proof
      assume "layouts st = []"
      from place_item_empty [OF shape this, where rng = rng and rm = rm
          and furniture = furniture and furniture_dims = ?d] r False
      show False by simp
    qed
    with False facts n show ?thesis by simp
  qed
  from r n pf facts coll last show ?thesis by blast
qed

text \<open>
  A second sofa in the 4 by 4 room, with a generator that always draws 1/2, gets the
  position of the first one on each of its 50 attempts and is left out with a warning.
\<close>

theorem place_furniture_budget_witness:
  "place_furniture None (\<lambda>k. dbl (1 / 2))
     \<lparr>room_width = dbl 4, room_length = dbl 4, room_height = dbl 8\<rparr> 1 ''Sofa''
     \<lparr>layouts = [mk_item ''Sofa'' (- 1) (dbl (1 / 2)) (dims_as_double (mk_dims 6 3 3))],
      draws = 2, warnings = []\<rparr>
   = Inr \<lparr>layouts = [mk_item ''Sofa'' (- 1) (dbl (1 / 2)) (dims_as_double (mk_dims 6 3 3))],
          draws = 102, warnings = [''Sofa'']\<rparr>
   \<and> (\<exists>st1. place_item None (\<lambda>k. dbl (1 / 2))
          \<lparr>room_width = dbl 4, room_length = dbl 4, room_height = dbl 8\<rparr> 1 ''Sofa''
          (dims_as_double (get_furniture_dimensions ''Sofa'')) 0
          \<lparr>layouts = [mk_item ''Sofa'' (- 1) (dbl (1 / 2)) (dims_as_double (mk_dims 6 3 3))],
           draws = 2, warnings = []\<rparr>
        = Inr (False, max_attempts, st1))
   \<and> has_collision (mk_item ''Sofa'' (- 1) (dbl (1 / 2)) (dims_as_double (mk_dims 6 3 3)))
        [mk_item ''Sofa'' (- 1) (dbl (1 / 2)) (dims_as_double (mk_dims 6 3 3))]"
proof -
  let ?rm = "\<lparr>room_width = dbl 4, room_length = dbl 4, room_height = dbl 8\<rparr>"
  let ?rng = "\<lambda>k::nat. dbl (1 / 2)"
  let ?it = "mk_item ''Sofa'' (- 1) (dbl (1 / 2)) (dims_as_double (mk_dims 6 3 3))"
  let ?st = "\<lparr>layouts = [?it], draws = 2, warnings = []\<rparr>"
  have ev: "place_furniture None ?rng ?rm 1 ''Sofa'' ?st
    = Inr \<lparr>layouts = [?it], draws = 102, warnings = [''Sofa'']\<rparr>"
    by (simp add: eval_simps)
  have col: "has_collision ?it [?it]"
    by (simp add: eval_simps)
  have shape: "case None :: double list list option of None \<Rightarrow> True
               | Some p \<Rightarrow> 1 < length p \<and> 2 \<le> length (p ! 1)"
    by simp
  from place_furniture_budget [OF shape, where rng = ?rng and rm = ?rm
      and furniture = "''Sofa''" and st = ?st]
  obtain placed attempts st1 where
    r: "place_item None ?rng ?rm 1 ''Sofa'' (dims_as_double (get_furniture_dimensions ''Sofa''))
          0 ?st = Inr (placed, attempts, st1)"
    and pf: "place_furniture None ?rng ?rm 1 ''Sofa'' ?st
          = Inr (if placed then st1 else st1\<lparr>warnings := warnings st1 @ [''Sofa'']\<rparr>)"
    and w: "warnings st1 = warnings ?st"
    and c: "if placed then attempts < max_attempts else attempts = max_attempts"
    by (auto split: if_splits)
  have "\<not> placed"
  proof
    assume placed
    with pf ev w show False by auto
  qed
  with r c ev col show ?thesis by auto
qed

section \<open>Absent and failing model\<close>

lemma place_all_total:
  "\<exists>st'. place_all None rng rm i fs st = Inr st'"
proof (induction fs arbitrary: i st)
  case Nil
  show ?case by simp
next
  case (Cons f rest)
  have "case None :: double list list option of None \<Rightarrow> True
          | Some p \<Rightarrow> i < length p \<and> 2 \<le> length (p ! i)"
    by simp
  from place_item_total [OF this, where rng = rng and rm = rm and furniture = f
      and furniture_dims = "dims_as_double (get_furniture_dimensions f)"
      and attempts = 0 and st = st]
  obtain st1 where "place_furniture None rng rm i f st = Inr st1"
    by (auto simp: place_furniture_def)
  with Cons.IH [of "Suc i" st1] show ?case by simp
qed

lemma place_all_names:
  "place_all predictions rng rm i fs st = Inr st' \<Longrightarrow>
   mset (map ftype (layouts st')) + mset (warnings st')
     = mset (map ftype (layouts st)) + mset (warnings st) + mset fs"
proof (induction fs arbitrary: i st)
  case Nil
  then show ?case by simp
next
  case (Cons f rest)
  show ?case
  proof (cases "place_furniture predictions rng rm i f st")
    case (Inl e)
    with Cons.prems show ?thesis by simp
  next
    case (Inr st1)
    with Cons.prems have "place_all predictions rng rm (Suc i) rest st1 = Inr st'" by simp
    from Cons.IH [OF this] place_furniture_Inr [OF Inr] show ?thesis
      by (auto simp: mk_item_def)
  qed
qed

text \<open>
  Claim C4 as stated fails for a failing inference call: the exception of
  \<open>model.predict\<close> leaves \<open>generate_layouts\<close>.
\<close>

theorem generate_layouts_model_absent_counterexample:
  "generate_layouts (Some (\<lambda>X. Inl InferenceError)) (\<lambda>k. dbl (1 / 2))
     \<lparr>room_width = dbl 12, room_length = dbl 12, room_height = dbl 8\<rparr> [''Sofa'', ''Armchair'']
   = Inl InferenceError"
  by (simp add: generate_layouts_def predict_def)

text \<open>
  Claim C4, amended. Without a model \<open>generate_layouts\<close> always returns a layout and a
  list of warnings. Every requested item is either placed or warned about: the types of
  the placed items together with the warnings are the requested list, as multisets.
  Every placed item has the catalog dimensions of its type and a position sampled from
  the generator. When \<open>model.predict\<close> raises, \<open>generate_layouts\<close> raises the same
  exception.
\<close>

theorem generate_layouts_model_absent:
  "(\<exists>layout warns. generate_layouts None rng rm selected_furniture = Inr (layout, warns)
       \<and> length layout + length warns = length selected_furniture
       \<and> mset (map ftype layout) + mset warns = mset selected_furniture
       \<and> (\<forall>it \<in> set layout.
             dimensions it = dims_as_double (get_furniture_dimensions (ftype it)))
       \<and> (\<forall>it \<in> set layout. \<exists>k.
             pos_x (position it) = uniform 0 (room_width rm - width (dimensions it)) (rng k)
           \<and> pos_y (position it)
               = uniform 0 (room_length rm - depth (dimensions it)) (rng (k + 1))))
   \<and> (\<forall>m e. m (features rm selected_furniture) = Inl e
         \<longrightarrow> generate_layouts (Some m) rng rm selected_furniture = Inl e)"
proof (intro conjI allI impI)
  let ?rand = "\<lambda>it. \<exists>k.
             pos_x (position it) = uniform 0 (room_width rm - width (dimensions it)) (rng k)
           \<and> pos_y (position it)
               = uniform 0 (room_length rm - depth (dimensions it)) (rng (k + 1))"
  let ?cat = "\<lambda>it. dimensions it = dims_as_double (get_furniture_dimensions (ftype it))"
  from place_all_total obtain st' where
    p: "place_all None rng rm 0 selected_furniture init_state = Inr st'" by blast
  have g: "generate_layouts None rng rm selected_furniture = Inr (layouts st', warnings st')"
    using p by (simp add: generate_layouts_def predict_def)
  have names: "mset (map ftype (layouts st')) + mset (warnings st') = mset selected_furniture"
    using place_all_names [OF p] by (simp add: init_state_def)
  from names have "size (mset (map ftype (layouts st')) + mset (warnings st'))
                     = size (mset selected_furniture)"
    by simp
  then have cnt: "length (layouts st') + length (warnings st') = length selected_furniture"
    by simp
  define P :: "double item \<Rightarrow> bool" where "P = (\<lambda>it. ?rand it \<and> ?cat it)"
  have "\<forall>it \<in> set (layouts st'). P it"
  proof (rule place_all_invariant [OF p, where Q = "\<lambda>ls ws. \<forall>it \<in> set ls. P it"])
    show "\<forall>it \<in> set (layouts init_state). P it"
      by (simp add: init_state_def)
  next
    fix ls :: "double item list" and ws :: "string list" and f px py n k0 k j
    assume q: "\<forall>it \<in> set ls. P it"
      and c: "candidate None rng rm j (dims_as_double (get_furniture_dimensions f)) n k0
                = Inr (px, py, k)"
    from c have "?rand (mk_item f px py (dims_as_double (get_furniture_dimensions f)))"
      by (auto simp: candidate_def random_candidate_def mk_item_def)
    moreover have "?cat (mk_item f px py (dims_as_double (get_furniture_dimensions f)))"
      by (simp add: mk_item_def)
    ultimately have "P (mk_item f px py (dims_as_double (get_furniture_dimensions f)))"
      unfolding P_def by (rule conjI)
    with q
    show "\<forall>it \<in> set (ls @ [mk_item f px py (dims_as_double (get_furniture_dimensions f))]).
            P it"
      by simp
  next
    fix ls :: "double item list" and ws :: "string list" and f
    assume "\<forall>it \<in> set ls. P it"
    then show "\<forall>it \<in> set ls. P it" .
  qed
  then have "(\<forall>it \<in> set (layouts st'). ?cat it) \<and> (\<forall>it \<in> set (layouts st'). ?rand it)"
    unfolding P_def by blast
  with g cnt names
  show "\<exists>layout warns. generate_layouts None rng rm selected_furniture = Inr (layout, warns)
       \<and> length layout + length warns = length selected_furniture
       \<and> mset (map ftype layout) + mset warns = mset selected_furniture
       \<and> (\<forall>it \<in> set layout. ?cat it)
       \<and> (\<forall>it \<in> set layout. ?rand it)"
    by blast
next
  fix m :: predictor and e
  assume "m (features rm selected_furniture) = Inl e"
  then show "generate_layouts (Some m) rng rm selected_furniture = Inl e"
    by (simp add: generate_layouts_def predict_def)
qed

text \<open>
  A model that always raises, and the same request without a model.
\<close>

theorem generate_layouts_model_absent_witness:
  "(\<lambda>X. Inl InferenceError :: error + double list list)
      (features \<lparr>room_width = dbl 16, room_length = dbl 16, room_height = dbl 8\<rparr>
         [''Sofa'', ''Armchair''])
     = Inl InferenceError
   \<and> generate_layouts (Some (\<lambda>X. Inl InferenceError))
       (\<lambda>k. if k < 2 then 0 else dbl (1 / 2))
       \<lparr>room_width = dbl 16, room_length = dbl 16, room_height = dbl 8\<rparr>
       [''Sofa'', ''Armchair'']
     = Inl InferenceError
   \<and> (\<exists>layout warns.
        generate_layouts None (\<lambda>k. if k < 2 then 0 else dbl (1 / 2))
          \<lparr>room_width = dbl 16, room_length = dbl 16, room_height = dbl 8\<rparr>
          [''Sofa'', ''Armchair'']
          = Inr (layout, warns)
        \<and> length layout + length warns = 2
        \<and> mset (map ftype layout) + mset warns = mset [''Sofa'', ''Armchair''])"
  using generate_layouts_model_absent [of "\<lambda>k. if k < 2 then 0 else dbl (1 / 2)"
      "\<lparr>room_width = dbl 16, room_length = dbl 16, room_height = dbl 8\<rparr>"
      "[''Sofa'', ''Armchair'']"]
  by auto

section \<open>Room bounds\<close>

lemma candidate_forms:
  assumes "candidate predictions rng rm j d n k0 = Inr (px, py, k)"
  shows "((\<exists>a. px = uniform 0 (room_width rm - width d) (rng a))
          \<or> (\<exists>p. px = max 0 (min p (room_width rm - width d))))
       \<and> ((\<exists>a. py = uniform 0 (room_length rm - depth d) (rng a))
          \<or> (\<exists>p. py = max 0 (min p (room_length rm - depth d))))"
proof (cases predictions)
  case None
  with assms show ?thesis
    by (auto simp: candidate_def random_candidate_def)
next
  case (Some p)
  show ?thesis
  proof (cases "n = 0")
    case False
    with assms Some show ?thesis
      by (auto simp: candidate_def random_candidate_def)
  next
    case True
    with assms Some show ?thesis
      by (auto simp: candidate_def split: sum.splits)
  qed
qed

lemma axis_in_room:
  assumes fit: "w \<le> r"
    and unit: "\<forall>k. 0 \<le> rng k \<and> rng k \<le> 1"
    and form: "(\<exists>a. x = uniform 0 (r - w) (rng a)) \<or> (\<exists>p. x = max 0 (min p (r - w)))"
  shows "0 \<le> x \<and> val x + val w \<le> val r + (val r - val w) / 2 ^ 53"
proof -
  from fit have f: "val w \<le> val r" by (simp add: less_eq_double_def)
  note env = envelope [OF f]
  have range: "0 \<le> val x \<and> val x \<le> val (r - w)"
    using form
  proof
    assume "\<exists>a. x = uniform 0 (r - w) (rng a)"
    then obtain a where x: "x = uniform 0 (r - w) (rng a)" by blast
    from unit have "0 \<le> val (rng a)" "val (rng a) \<le> 1"
      by (simp_all add: less_eq_double_def)
    from uniform_range [OF env(1) env(2) this] show ?thesis
      unfolding x .
  next
    assume "\<exists>p. x = max 0 (min p (r - w))"
    then obtain p where x: "x = max 0 (min p (r - w))" by blast
    from clamp_range [OF env(1)] show ?thesis
      unfolding x .
  qed
  then have "0 \<le> x" by (simp add: less_eq_double_def)
  moreover from range env(3)
  have "val x + val w \<le> val r + (val r - val w) / 2 ^ 53" by linarith
  ultimately show ?thesis by blast
qed

lemma bed_envelope:
  "dbl (2277 / 100) - dbl (667 / 100) = Double (4531747125041562 / 2 ^ 48)"
  using fl_envelope by (simp add: double_ops fl_667 fl_2277)

lemma bed_hint: "1 * dbl (2277 / 100) = dbl (2277 / 100)"
  by (simp add: double_ops)

lemma bed_clamp:
  "max 0 (min (1 * dbl (2277 / 100)) (dbl (2277 / 100) - dbl (667 / 100)))
     = Double (4531747125041562 / 2 ^ 48)"
  unfolding bed_envelope bed_hint
  by (simp add: max_def min_def double_ops fl_2277)

lemma bed_far_end:
  "Double (4531747125041562 / 2 ^ 48) + dbl (667 / 100) = Double (6409185219701638 / 2 ^ 48)"
  using fl_far_end by (simp add: double_ops fl_667)

text \<open>
  Claim C2 as stated fails, in two ways. A sofa is 6 wide; in a room 5 wide it is placed
  on the first attempt, at x = 0 with the hint of a model (so that it ends at 6, beyond
  the wall) and at a negative x without a model. And an item that fits can end beyond the
  wall by a rounding error: a bed (6.67 wide) in a room 22.77 wide, with the hint 1.0, is
  placed at the rounded difference 22.77 - 6.67, which is 16.1, and 16.1 + 6.67 exceeds
  22.77, as a sum of doubles and as an exact sum.
\<close>

theorem generate_layouts_in_room_counterexample:
  "generate_layouts (Some (\<lambda>X. Inr (map (\<lambda>_. [dbl (1 / 2), dbl (1 / 2)]) X)))
     (\<lambda>k. dbl (1 / 2))
     \<lparr>room_width = dbl 5, room_length = dbl 5, room_height = dbl 8\<rparr> [''Sofa'']
     = Inr ([mk_item ''Sofa'' 0 (dbl 2) (dims_as_double (mk_dims 6 3 3))], [])
   \<and> \<not> (pos_x (position (mk_item ''Sofa'' 0 (dbl 2) (dims_as_double (mk_dims 6 3 3))))
          + width (dimensions (mk_item ''Sofa'' 0 (dbl 2) (dims_as_double (mk_dims 6 3 3))))
        \<le> room_width \<lparr>room_width = dbl 5, room_length = dbl 5, room_height = dbl 8\<rparr>)
   \<and> generate_layouts None (\<lambda>k. dbl (1 / 2))
     \<lparr>room_width = dbl 5, room_length = dbl 5, room_height = dbl 8\<rparr> [''Sofa'']
     = Inr ([mk_item ''Sofa'' (dbl (- 1 / 2)) 1 (dims_as_double (mk_dims 6 3 3))], [])
   \<and> \<not> (0 \<le> pos_x (position
                 (mk_item ''Sofa'' (dbl (- 1 / 2)) 1 (dims_as_double (mk_dims 6 3 3)))))
   \<and> generate_layouts (Some (\<lambda>X. Inr (map (\<lambda>_. [1, 0]) X))) (\<lambda>k. 0)
       \<lparr>room_width = dbl (2277 / 100), room_length = dbl 16, room_height = dbl 8\<rparr> [''Bed'']
     = Inr ([mk_item ''Bed'' (Double (4531747125041562 / 2 ^ 48)) 0
               (dims_as_double (mk_dims (667 / 100) 5 (5 / 2)))], [])
   \<and> width (dims_as_double (mk_dims (667 / 100) 5 (5 / 2))) \<le> dbl (2277 / 100)
   \<and> \<not> (Double (4531747125041562 / 2 ^ 48)
            + width (dims_as_double (mk_dims (667 / 100) 5 (5 / 2)))
          \<le> dbl (2277 / 100))
   \<and> \<not> (4531747125041562 / 2 ^ 48 + val (width (dims_as_double (mk_dims (667 / 100) 5 (5 / 2))))
          \<le> val (dbl (2277 / 100)))"
proof -
  let ?rm = "\<lparr>room_width = dbl (2277 / 100), room_length = dbl 16, room_height = dbl 8\<rparr>"
  have a: "generate_layouts (Some (\<lambda>X. Inr (map (\<lambda>_. [dbl (1 / 2), dbl (1 / 2)]) X)))
     (\<lambda>k. dbl (1 / 2))
     \<lparr>room_width = dbl 5, room_length = dbl 5, room_height = dbl 8\<rparr> [''Sofa'']
     = Inr ([mk_item ''Sofa'' 0 (dbl 2) (dims_as_double (mk_dims 6 3 3))], [])"
    by (simp add: eval_simps)
  have b: "\<not> (pos_x (position (mk_item ''Sofa'' 0 (dbl 2) (dims_as_double (mk_dims 6 3 3))))
          + width (dimensions (mk_item ''Sofa'' 0 (dbl 2) (dims_as_double (mk_dims 6 3 3))))
        \<le> room_width \<lparr>room_width = dbl 5, room_length = dbl 5, room_height = dbl 8\<rparr>)"
    by (simp add: eval_simps)
  have c: "generate_layouts None (\<lambda>k. dbl (1 / 2))
     \<lparr>room_width = dbl 5, room_length = dbl 5, room_height = dbl 8\<rparr> [''Sofa'']
     = Inr ([mk_item ''Sofa'' (dbl (- 1 / 2)) 1 (dims_as_double (mk_dims 6 3 3))], [])"
    by (simp add: eval_simps)
  have d: "\<not> (0 \<le> pos_x (position
                 (mk_item ''Sofa'' (dbl (- 1 / 2)) 1 (dims_as_double (mk_dims 6 3 3)))))"
    by (simp add: eval_simps)
  have y: "max 0 (min (0 * dbl 16) (dbl 16 - dbl 5)) = (0::double)"
    by (simp add: max_def min_def double_ops)
  have bed: "dims_as_double (get_furniture_dimensions ''Bed'')
               = \<lparr>width = dbl (667 / 100), depth = dbl 5, height = dbl (5 / 2)\<rparr>"
    by (simp add: get_furniture_dimensions_def dimensions_table_def mk_dims_def
        dims_as_double_def)
  have bed': "dims_as_double (mk_dims (667 / 100) 5 (5 / 2))
               = \<lparr>width = dbl (667 / 100), depth = dbl 5, height = dbl (5 / 2)\<rparr>"
    by (simp add: mk_dims_def dims_as_double_def)
  have cand: "candidate (Some [[1, 0]]) (\<lambda>k. 0) ?rm 0
                \<lparr>width = dbl (667 / 100), depth = dbl 5, height = dbl (5 / 2)\<rparr> 0 0
              = Inr (Double (4531747125041562 / 2 ^ 48), 0, 0)"
    by (simp add: candidate_def prediction_at_def bed_clamp y)
  have e: "generate_layouts (Some (\<lambda>X. Inr (map (\<lambda>_. [1, 0]) X))) (\<lambda>k. 0) ?rm [''Bed'']
     = Inr ([mk_item ''Bed'' (Double (4531747125041562 / 2 ^ 48)) 0
               (dims_as_double (mk_dims (667 / 100) 5 (5 / 2)))], [])"
    by (simp add: generate_layouts_def predict_def features_def place_furniture_def
        place_item.simps [of _ _ _ _ _ _ 0] bed bed' cand init_state_def max_attempts_def)
  have f: "width (dims_as_double (mk_dims (667 / 100) 5 (5 / 2))) \<le> dbl (2277 / 100)"
    by (simp add: mk_dims_def dims_as_double_def less_eq_double_def fl_667 fl_2277)
  have g: "\<not> (Double (4531747125041562 / 2 ^ 48)
            + width (dims_as_double (mk_dims (667 / 100) 5 (5 / 2)))
          \<le> dbl (2277 / 100))"
    unfolding bed' dims.simps bed_far_end
    by (simp add: less_eq_double_def fl_2277)
  have h: "\<not> (4531747125041562 / 2 ^ 48
               + val (width (dims_as_double (mk_dims (667 / 100) 5 (5 / 2))))
          \<le> val (dbl (2277 / 100)))"
    by (simp add: mk_dims_def dims_as_double_def fl_667 fl_2277)
  from a b c d e f g h show ?thesis by blast
qed

text \<open>
  Claim C2, amended. Let the generator draw from \<open>[0, 1]\<close>. For every placed item and for
  each axis separately: if the item is at most as wide as the room, then \<open>0 \<le> x\<close> and
  \<open>x + width \<le> room_width + (room_width - width) / 2\<^sup>5\<^sup>3\<close>, the sum taken exactly; the
  excess is the rounding error of the difference \<open>room_width - width\<close>. The same holds for
  \<open>y\<close>, the depth and the room length. Nothing is promised on an axis on which the item is
  larger than the room.
\<close>

theorem generate_layouts_in_room:
  assumes run: "generate_layouts model rng rm selected_furniture = Inr (layout, warns)"
    and unit: "\<forall>k. 0 \<le> rng k \<and> rng k \<le> 1"
  shows "\<forall>it \<in> set layout.
           (width (dimensions it) \<le> room_width rm \<longrightarrow>
              0 \<le> pos_x (position it)
            \<and> val (pos_x (position it)) + val (width (dimensions it))
                \<le> val (room_width rm)
                  + (val (room_width rm) - val (width (dimensions it))) / 2 ^ 53)
         \<and> (depth (dimensions it) \<le> room_length rm \<longrightarrow>
              0 \<le> pos_y (position it)
            \<and> val (pos_y (position it)) + val (depth (dimensions it))
                \<le> val (room_length rm)
                  + (val (room_length rm) - val (depth (dimensions it))) / 2 ^ 53)"
proof -
  define ok :: "double item \<Rightarrow> bool" where "ok = (\<lambda>it.
           (width (dimensions it) \<le> room_width rm \<longrightarrow>
              0 \<le> pos_x (position it)
            \<and> val (pos_x (position it)) + val (width (dimensions it))
                \<le> val (room_width rm)
                  + (val (room_width rm) - val (width (dimensions it))) / 2 ^ 53)
         \<and> (depth (dimensions it) \<le> room_length rm \<longrightarrow>
              0 \<le> pos_y (position it)
            \<and> val (pos_y (position it)) + val (depth (dimensions it))
                \<le> val (room_length rm)
                  + (val (room_length rm) - val (depth (dimensions it))) / 2 ^ 53))"
  from generate_layouts_Inr [OF run] obtain predictions st' where
    p: "place_all predictions rng rm 0 selected_furniture init_state = Inr st'"
    and layout: "layout = layouts st'"
    by blast
  have "\<forall>it \<in> set (layouts st'). ok it"
  proof (rule place_all_invariant [OF p, where Q = "\<lambda>ls ws. \<forall>it \<in> set ls. ok it"])
    show "\<forall>it \<in> set (layouts init_state). ok it"
      by (simp add: init_state_def)
  next
    fix ls :: "double item list" and ws :: "string list" and f px py n k0 k j
    let ?d = "dims_as_double (get_furniture_dimensions f)"
    assume q: "\<forall>it \<in> set ls. ok it"
      and c: "candidate predictions rng rm j ?d n k0 = Inr (px, py, k)"
    note forms = candidate_forms [OF c]
    have x: "0 \<le> px \<and> val px + val (width ?d)
               \<le> val (room_width rm) + (val (room_width rm) - val (width ?d)) / 2 ^ 53"
      if "width ?d \<le> room_width rm"
      using that unit forms [THEN conjunct1] by (rule axis_in_room)
    have y: "0 \<le> py \<and> val py + val (depth ?d)
               \<le> val (room_length rm) + (val (room_length rm) - val (depth ?d)) / 2 ^ 53"
      if "depth ?d \<le> room_length rm"
      using that unit forms [THEN conjunct2] by (rule axis_in_room)
    from x y have "ok (mk_item f px py ?d)"
      unfolding ok_def by (simp add: mk_item_def)
    with q show "\<forall>it \<in> set (ls @ [mk_item f px py ?d]). ok it"
      by simp
  next
    fix ls :: "double item list" and ws :: "string list" and f
    assume "\<forall>it \<in> set ls. ok it"
    then show "\<forall>it \<in> set ls. ok it" .
  qed
  with layout show ?thesis unfolding ok_def by simp
qed

text \<open>
  The sofa and the armchair in the 16 by 16 room lie inside the room.
\<close>

theorem generate_layouts_in_room_witness:
  "generate_layouts None (\<lambda>k. if k < 2 then 0 else dbl (1 / 2))
     \<lparr>room_width = dbl 16, room_length = dbl 16, room_height = dbl 8\<rparr> [''Sofa'', ''Armchair'']
     = Inr ([mk_item ''Sofa'' 0 0 (dims_as_double (mk_dims 6 3 3)),
             mk_item ''Armchair'' (dbl (13 / 2)) (dbl (13 / 2)) (dims_as_double (mk_dims 3 3 3))],
            [])
   \<and> list_all (\<lambda>it. width (dimensions it) \<le> dbl 16 \<and> depth (dimensions it) \<le> dbl 16
                   \<and> 0 \<le> pos_x (position it)
                   \<and> val (pos_x (position it)) + val (width (dimensions it))
                       \<le> 16 + (16 - val (width (dimensions it))) / 2 ^ 53
                   \<and> 0 \<le> pos_y (position it)
                   \<and> val (pos_y (position it)) + val (depth (dimensions it))
                       \<le> 16 + (16 - val (depth (dimensions it))) / 2 ^ 53)
       [mk_item ''Sofa'' 0 0 (dims_as_double (mk_dims 6 3 3)),
        mk_item ''Armchair'' (dbl (13 / 2)) (dbl (13 / 2)) (dims_as_double (mk_dims 3 3 3))]"
proof -
  let ?rm = "\<lparr>room_width = dbl 16, room_length = dbl 16, room_height = dbl 8\<rparr>"
  let ?rng = "\<lambda>k::nat. if k < 2 then 0 else dbl (1 / 2)"
  let ?L = "[mk_item ''Sofa'' 0 0 (dims_as_double (mk_dims 6 3 3)),
             mk_item ''Armchair'' (dbl (13 / 2)) (dbl (13 / 2)) (dims_as_double (mk_dims 3 3 3))]"
  have ev: "generate_layouts None ?rng ?rm [''Sofa'', ''Armchair''] = Inr (?L, [])"
    by (simp add: eval_simps)
  have fits: "\<forall>it \<in> set ?L. width (dimensions it) \<le> room_width ?rm
                            \<and> depth (dimensions it) \<le> room_length ?rm"
    by (simp add: eval_simps)
  have unit: "\<forall>k. 0 \<le> ?rng k \<and> ?rng k \<le> 1"
    by (simp add: double_ops)
  have rw: "val (room_width ?rm) = 16" "val (room_length ?rm) = 16"
    by simp_all
  from generate_layouts_in_room [OF ev unit] fits ev show ?thesis
    unfolding list_all_iff rw by simp
qed

section \<open>Scale factor\<close>















section \<open>Scale-and-position step\<close>

text \<open>
  Claim C7 says that the minimum corner of the positioned mesh is \<open>(x, y, 0)\<close>. The code
  scales the copy about the origin and translates it by the vector \<open>(x, y, 0)\<close>, so the
  minimum corner of the result is the scaled minimum corner of the source moved by
  \<open>(x, y, 0)\<close>. For a tetrahedron with minimum corner \<open>(1, 1, 1)\<close> and a nightstand
  (\<open>2 \<times> 2 \<times> 2\<close>) placed at \<open>(3, 4)\<close> the factor is 2 and the minimum corner of the positioned
  mesh is \<open>(5, 6, 2)\<close>, not \<open>(3, 4, 0)\<close>.
\<close>

theorem scale_and_position_min_corner:
  "scale_and_position
     [\<lparr>vertices = [(1, 1, 1), (dbl 2, 1, 1), (1, dbl 2, 1), (1, 1, dbl 2)],
       faces = [(0, 1, 2), (0, 1, 3), (0, 2, 3), (1, 2, 3)]\<rparr>] 0
     (mk_item ''Nightstand'' (dbl 3) (dbl 4) (dims_as_double (mk_dims 2 2 2)))
   = ([\<lparr>vertices = [(1, 1, 1), (dbl 2, 1, 1), (1, dbl 2, 1), (1, 1, dbl 2)],
        faces = [(0, 1, 2), (0, 1, 3), (0, 2, 3), (1, 2, 3)]\<rparr>,
       \<lparr>vertices = [(dbl 5, dbl 6, dbl 2), (dbl 7, dbl 6, dbl 2), (dbl 5, dbl 8, dbl 2),
                    (dbl 5, dbl 6, dbl 4)],
        faces = [(0, 1, 2), (0, 1, 3), (0, 2, 3), (1, 2, 3)]\<rparr>], Inr 1)
   \<and> bounds_min \<lparr>vertices = [(dbl 5, dbl 6, dbl 2), (dbl 7, dbl 6, dbl 2),
                              (dbl 5, dbl 8, dbl 2), (dbl 5, dbl 6, dbl 4)],
                  faces = [(0, 1, 2), (0, 1, 3), (0, 2, 3), (1, 2, 3)]\<rparr>
       = (dbl 5, dbl 6, dbl 2)
   \<and> bounds_min \<lparr>vertices = [(dbl 5, dbl 6, dbl 2), (dbl 7, dbl 6, dbl 2),
                              (dbl 5, dbl 8, dbl 2), (dbl 5, dbl 6, dbl 4)],
                  faces = [(0, 1, 2), (0, 1, 3), (0, 2, 3), (1, 2, 3)]\<rparr>
       \<noteq> (dbl 3, dbl 4, 0)"
  by (simp add: mesh_eval)

text \<open>
  Claim C8. The step leaves the source mesh as it was: the object at the source reference
  is unchanged, so is every other object that existed before, and the mesh that is
  scaled and translated is a new object. This holds on every path of the step, also when
  \<open>calculate_scale_factor\<close> raises and when the factor is not finite.
\<close>

theorem scale_and_position_source_unchanged:
  assumes "mesh < length h"
    and "scale_and_position h mesh furniture = (h', res)"
  shows "h' ! mesh = h ! mesh \<and> take (length h) h' = h \<and> res \<noteq> Inr mesh"
proof (cases "calculate_scale_factor (h ! mesh) (dimensions furniture)")
  case (Inl e)
  with assms show ?thesis by (auto simp: scale_and_position_def)
next
  case (Inr sf)
  let ?t = "(pos_x (position furniture), pos_y (position furniture), 0 :: double)"
  show ?thesis
  proof (cases sf)
    case (Fin s)
    with assms(2) Inr
    have h': "h' = h @ [translate_mesh ?t (scale_mesh s (h ! mesh))]"
      and res: "res = Inr (length h)"
      by (simp_all add: scale_and_position_def copy_def apply_transform_def
          apply_translation_def)
    from h' res assms(1) show ?thesis
      by (simp add: nth_append)
  next
    case PosInf
    with assms Inr show ?thesis
      by (auto simp: scale_and_position_def copy_def nth_append)
  next
    case NegInf
    with assms Inr show ?thesis
      by (auto simp: scale_and_position_def copy_def nth_append)
  next
    case NaN
    with assms Inr show ?thesis
      by (auto simp: scale_and_position_def copy_def nth_append)
  qed
qed

text \<open>
  The mesh with extents \<open>(2, 1, 4)\<close>, scaled for a sofa and moved to \<open>(1, 2)\<close>.
\<close>

theorem scale_and_position_source_unchanged_witness:
  "(0::nat) < length [\<lparr>vertices = [(0, 0, 0), (dbl 2, 0, 0), (0, 1, 0), (0, 0, dbl 4)],
                        faces = [(0, 1, 2), (0, 1, 3), (0, 2, 3), (1, 2, 3)]\<rparr>]
   \<and> scale_and_position
       [\<lparr>vertices = [(0, 0, 0), (dbl 2, 0, 0), (0, 1, 0), (0, 0, dbl 4)],
         faces = [(0, 1, 2), (0, 1, 3), (0, 2, 3), (1, 2, 3)]\<rparr>] 0
       (mk_item ''Sofa'' 1 (dbl 2) (dims_as_double (mk_dims 6 3 3)))
     = ([\<lparr>vertices = [(0, 0, 0), (dbl 2, 0, 0), (0, 1, 0), (0, 0, dbl 4)],
          faces = [(0, 1, 2), (0, 1, 3), (0, 2, 3), (1, 2, 3)]\<rparr>,
         \<lparr>vertices = [(1, dbl 2, 0), (dbl (5 / 2), dbl 2, 0), (1, dbl (11 / 4), 0),
                      (1, dbl 2, dbl 3)],
          faces = [(0, 1, 2), (0, 1, 3), (0, 2, 3), (1, 2, 3)]\<rparr>], Inr 1)
   \<and> [\<lparr>vertices = [(0, 0, 0), (dbl 2, 0, 0), (0, 1, 0), (0, 0, dbl 4)],
         faces = [(0, 1, 2), (0, 1, 3), (0, 2, 3), (1, 2, 3 :: nat)]\<rparr>,
        \<lparr>vertices = [(1, dbl 2, 0), (dbl (5 / 2), dbl 2, 0), (1, dbl (11 / 4), 0),
                     (1, dbl 2, dbl 3)],
         faces = [(0, 1, 2), (0, 1, 3), (0, 2, 3), (1, 2, 3)]\<rparr>] ! 0
     = \<lparr>vertices = [(0, 0, 0), (dbl 2, 0, 0), (0, 1, 0), (0, 0, dbl 4)],
        faces = [(0, 1, 2), (0, 1, 3), (0, 2, 3), (1, 2, 3)]\<rparr>"
proof -
  let ?m = "\<lparr>vertices = [(0, 0, 0), (dbl 2, 0, 0), (0, 1, 0), (0, 0, dbl 4)],
         faces = [(0, 1, 2), (0, 1, 3), (0, 2, 3), (1, 2, 3 :: nat)]\<rparr> :: mesh"
  let ?m' = "\<lparr>vertices = [(1, dbl 2, 0), (dbl (5 / 2), dbl 2, 0), (1, dbl (11 / 4), 0),
                      (1, dbl 2, dbl 3)],
          faces = [(0, 1, 2), (0, 1, 3), (0, 2, 3), (1, 2, 3 :: nat)]\<rparr> :: mesh"
  have len: "(0::nat) < length [?m]" by simp
  have ev: "scale_and_position [?m] 0 (mk_item ''Sofa'' 1 (dbl 2) (dims_as_double (mk_dims 6 3 3)))
              = ([?m, ?m'], Inr 1)"
    by (simp add: mesh_eval)
  from scale_and_position_source_unchanged [OF len ev] len ev show ?thesis
    by simp
qed

end
